theory Spec2Isabelle
  imports Main "HOL-Library.AList"
begin

section \<open>Approval profiles of abcvoting: \<open>preferences.py\<close>\<close>

text \<open>
  The module defines two classes, \<open>Voter\<close> and \<open>Profile\<close>. A voter is an approval set with a
  weight; a profile is a list of voters over the candidates \<open>0, ..., num_cand - 1\<close>.
  Every method is embedded as a function of the same name. A method that mutates the profile takes
  the profile and returns the outcome (an error or a value) together with the profile as it is
  when the method returns or raises.
\<close>

subsection \<open>Python values\<close>

text \<open>
  A candidate handed to the module is an arbitrary Python object. The checks of the module tell
  integers from everything else (\<open>isinstance(candidate, int)\<close>), so an object is an integer or,
  as the representative of the objects that are no integers, a string.
\<close>

datatype pyobj = PyInt int | PyStr string

text \<open>
  The exceptions, one constructor for each \<open>raise\<close> of the module, named as the specification
  names them. In Python \<open>InvalidCandidateType\<close> is a \<open>TypeError\<close>; \<open>InvalidArgument\<close>,
  \<open>DuplicateApproval\<close>, \<open>CandidateOutOfRange\<close> and \<open>InvalidWeight\<close> are \<open>ValueError\<close>s with
  different messages. \<open>IndexError\<close> is raised by the list assignment in \<open>__setitem__\<close>, and
  \<open>UnboundLocalError\<close> by a \<open>return\<close> of a local variable that was never assigned.
\<close>

datatype error =
    InvalidArgument
  | DuplicateApproval
  | InvalidCandidateType
  | CandidateOutOfRange
  | InvalidWeight
  | IndexError
  | UnboundLocalError

subsection \<open>Built-ins of Python used by the module\<close>

text \<open>
  A Python \<open>set\<close> is represented by the list of its elements in the order in which the set is
  iterated; \<open>len\<close> of a set is the length of that list. Python leaves the iteration order open.
  The model iterates a set in the order in which its elements were first inserted. Wherever a
  statement below does not depend on the order it is phrased with \<open>set\<close> of the list, and so
  holds for every order.
\<close>

fun set_add :: "pyobj list \<Rightarrow> pyobj \<Rightarrow> pyobj list" where
  "set_add s x = (if x \<in> set s then s else s @ [x])"

text \<open>\<open>s.update(xs)\<close>: insert the elements of \<open>xs\<close> one after the other.\<close>

definition set_update :: "pyobj list \<Rightarrow> pyobj list \<Rightarrow> pyobj list" where
  "set_update s xs = foldl set_add s xs"

text \<open>\<open>set(xs)\<close>: the empty set updated with \<open>xs\<close>.\<close>

definition py_set :: "pyobj list \<Rightarrow> pyobj list" where
  "py_set xs = set_update [] xs"

text \<open>\<open>s & t\<close>: the elements of \<open>s\<close> that are in \<open>t\<close>.\<close>

definition set_inter :: "pyobj list \<Rightarrow> pyobj list \<Rightarrow> pyobj list" where
  "set_inter s t = filter (\<lambda>x. x \<in> set t) s"

text \<open>\<open>str\<close> of an integer, in decimal.\<close>

definition digit_char :: "nat \<Rightarrow> char" where
  "digit_char d = ''0123456789'' ! d"

fun str_nat :: "nat \<Rightarrow> string" where
  "str_nat n =
     (if n < 10 then [digit_char n] else str_nat (n div 10) @ [digit_char (n mod 10)])"

declare str_nat.simps [simp del]

definition str_int :: "int \<Rightarrow> string" where
  "str_int i = (if i < 0 then CHR ''-'' # str_nat (nat (- i)) else str_nat (nat i))"

text \<open>\<open>str\<close> of an object: a string is itself.\<close>

fun py_str :: "pyobj \<Rightarrow> string" where
  "py_str (PyInt i) = str_int i"
| "py_str (PyStr s) = s"

text \<open>\<open>s[:-2]\<close>: all but the last two characters (nothing of a string shorter than two).\<close>

definition drop_last2 :: "string \<Rightarrow> string" where
  "drop_last2 s = take (length s - 2) s"

subsection \<open>Class \<open>Voter\<close>\<close>

record voter =
  approved :: "pyobj list"
  weight :: int

text \<open>
  The parameter \<open>num_cand\<close> of \<open>check_valid\<close> is a number of candidates or its default
  \<open>float("inf")\<close>, which no integer reaches.
\<close>

datatype cand_bound = Unbounded | Bound int

fun reaches :: "int \<Rightarrow> cand_bound \<Rightarrow> bool" where
  "reaches c Unbounded = False"
| "reaches c (Bound n) = (c \<ge> n)"

text \<open>The loop of \<open>check_valid\<close> over the approval set: the first offending candidate raises.\<close>

fun check_candidates :: "pyobj list \<Rightarrow> cand_bound \<Rightarrow> error + unit" where
  "check_candidates [] num_cand = Inr ()"
| "check_candidates (PyStr s # cs) num_cand = Inl InvalidCandidateType"
| "check_candidates (PyInt c # cs) num_cand =
     (if c < 0 \<or> reaches c num_cand then Inl CandidateOutOfRange
      else check_candidates cs num_cand)"

definition check_valid :: "voter \<Rightarrow> cand_bound \<Rightarrow> pyobj list option \<Rightarrow> error + unit" where
  "check_valid self num_cand approved_raw =
     (if (case approved_raw of None \<Rightarrow> False
          | Some raw \<Rightarrow> length (approved self) < length raw)
      then Inl DuplicateApproval
      else case check_candidates (approved self) num_cand of
             Inl e \<Rightarrow> Inl e
           | Inr u \<Rightarrow> if \<not> weight self > 0 then Inl InvalidWeight else Inr ())"

text \<open>\<open>Voter.__init__(approved, weight)\<close>; the default weight is 1.\<close>

definition Voter_init :: "pyobj list \<Rightarrow> int \<Rightarrow> error + voter" where
  "Voter_init approved_arg weight_arg =
     (let self = \<lparr>approved = py_set approved_arg, weight = weight_arg\<rparr>
      in case check_valid self Unbounded (Some approved_arg) of
           Inl e \<Rightarrow> Inl e
         | Inr u \<Rightarrow> Inr self)"

subsection \<open>Class \<open>Profile\<close>\<close>

text \<open>
  The field \<open>approved_cache\<close> is \<open>_approved_candidates\<close>: \<open>None\<close>, or a set. The argument of
  \<open>add_voter\<close> and \<open>__setitem__\<close> is a \<open>Voter\<close> or an iterable of candidates.
\<close>

record profile =
  candidates :: "int list"
  cand_names :: "string list"
  voters :: "voter list"
  approved_cache :: "pyobj list option"

datatype voter_arg = AVoter voter | Raw "pyobj list"

text \<open>
  \<open>Profile.__init__(num_cand, cand_names)\<close>. The names are \<open>None\<close> or a sequence; an empty
  sequence is false in the test \<open>if cand_names:\<close>.
\<close>

definition Profile_init :: "int \<Rightarrow> pyobj list option \<Rightarrow> error + profile" where
  "Profile_init n names =
     (if n \<le> 0 then Inl InvalidArgument
      else
        let self = \<lparr>candidates = [0..n - 1],
                    cand_names = map str_int [0..n - 1],
                    voters = [],
                    approved_cache = None\<rparr>
        in case names of
             None \<Rightarrow> Inr self
           | Some ns \<Rightarrow>
               if ns = [] then Inr self
               else if int (length ns) < n then Inl InvalidArgument
               else Inr (self\<lparr>cand_names := map py_str (take (nat n) ns)\<rparr>))"

definition num_cand :: "profile \<Rightarrow> int" where
  "num_cand self = int (length (candidates self))"

text \<open>
  The property \<open>approved_candidates\<close>. The union is built in a local variable only when the
  field is \<open>None\<close>; the field is never read otherwise, and the \<open>return\<close> of the unassigned
  local raises.
\<close>

definition approved_candidates :: "profile \<Rightarrow> error + pyobj list" where
  "approved_candidates self =
     (if approved_cache self = None
      then Inr (foldl (\<lambda>acc v. set_update acc (approved v)) [] (voters self))
      else Inl UnboundLocalError)"

definition unique_voter :: "voter_arg \<Rightarrow> profile \<Rightarrow> (error + voter) \<times> profile" where
  "unique_voter arg self =
     (case (case arg of
              AVoter v \<Rightarrow> Voter_init (approved v) (weight v)
            | Raw xs \<Rightarrow> Voter_init xs 1) of
        Inl e \<Rightarrow> (Inl e, self)
      | Inr v' \<Rightarrow>
          (let self1 = self\<lparr>approved_cache := None\<rparr>
           in (case check_valid v' (Bound (num_cand self1)) None of
                 Inl e \<Rightarrow> (Inl e, self1)
               | Inr u \<Rightarrow> (Inr v', self1))))"

definition add_voter :: "voter_arg \<Rightarrow> profile \<Rightarrow> (error + unit) \<times> profile" where
  "add_voter arg self =
     (case unique_voter arg self of
        (Inl e, self1) \<Rightarrow> (Inl e, self1)
      | (Inr v, self1) \<Rightarrow> (Inr (), self1\<lparr>voters := voters self1 @ [v]\<rparr>))"

fun add_voters :: "voter_arg list \<Rightarrow> profile \<Rightarrow> (error + unit) \<times> profile" where
  "add_voters [] self = (Inr (), self)"
| "add_voters (arg # args) self =
     (case add_voter arg self of
        (Inl e, self1) \<Rightarrow> (Inl e, self1)
      | (Inr u, self1) \<Rightarrow> add_voters args self1)"

definition totalweight :: "profile \<Rightarrow> int" where
  "totalweight self = sum_list (map weight (voters self))"

definition has_unit_weights :: "profile \<Rightarrow> bool" where
  "has_unit_weights self = list_all (\<lambda>v. weight v = 1) (voters self)"

text \<open>
  \<open>__setitem__(i, voter)\<close>. The right-hand side is evaluated first; the list assignment
  accepts \<open>-len \<le> i < len\<close>, a negative index counting from the end.
\<close>

definition setitem :: "int \<Rightarrow> voter_arg \<Rightarrow> profile \<Rightarrow> (error + unit) \<times> profile" where
  "setitem i arg self =
     (case unique_voter arg self of
        (Inl e, self1) \<Rightarrow> (Inl e, self1)
      | (Inr v, self1) \<Rightarrow>
          let n = int (length (voters self1))
          in if - n \<le> i \<and> i < n
             then (Inr (), self1\<lparr>voters := (voters self1)[nat (if i < 0 then n + i else i) := v]\<rparr>)
             else (Inl IndexError, self1))"

definition is_party_list :: "profile \<Rightarrow> bool" where
  "is_party_list self =
     list_all (\<lambda>voter1. list_all (\<lambda>voter2.
         length (set_inter (approved voter1) (approved voter2))
           \<in> {0, length (approved voter1)})
       (voters self)) (voters self)"

text \<open>
  \<open>str_set_of_candidates\<close> is imported from \<open>abcvoting.misc\<close>, which is not part of the
  sources at hand. The two string methods take it as the parameter \<open>ssc\<close>: a function of the
  candidates (in the order handed over) and the candidate names.
\<close>

definition str_profile :: "(pyobj list \<Rightarrow> string list \<Rightarrow> string) \<Rightarrow> profile \<Rightarrow> string" where
  "str_profile ssc self =
     drop_last2
       (if has_unit_weights self
        then foldl (\<lambda>output v. output @ '' '' @ ssc (approved v) (cand_names self) @ '',\<newline>'')
               (''profile with '' @ str_int (int (length (voters self))) @ '' votes and ''
                  @ str_int (num_cand self) @ '' candidates:\<newline>'')
               (voters self)
        else foldl (\<lambda>output v. (output @ '' '' @ str_int (weight v) @ '' * '')
                                  @ ssc (approved v) (cand_names self) @ '' ,\<newline>'')
               (''weighted profile with '' @ str_int (int (length (voters self))) @ '' votes''
                  @ '' and '' @ str_int (num_cand self) @ '' candidates:\<newline>'')
               (voters self))"

text \<open>
  The \<open>OrderedDict\<close> of \<open>str_compact\<close> is an association list in the order of first insertion;
  its keys are \<open>tuple(voter.approved)\<close>, the approval set in its iteration order.
\<close>

definition compact_step ::
  "(pyobj list \<times> int) list \<Rightarrow> voter \<Rightarrow> (pyobj list \<times> int) list" where
  "compact_step compact v =
     (case map_of compact (approved v) of
        Some w \<Rightarrow> AList.update (approved v) (w + weight v) compact
      | None \<Rightarrow> AList.update (approved v) (weight v) compact)"

definition str_compact :: "(pyobj list \<Rightarrow> string list \<Rightarrow> string) \<Rightarrow> profile \<Rightarrow> string" where
  "str_compact ssc self =
     (let compact = foldl compact_step [] (voters self);
          output0 = (if has_unit_weights self then '''' else ''weighted '');
          output1 = output0 @ ''profile with '' @ str_int (int (length (voters self)))
                      @ '' votes and '' @ str_int (num_cand self) @ '' candidates:\<newline>'';
          output2 = foldl (\<lambda>output (approval_set, w).
                        output @ ('' '' @ str_int w @ '' x ''
                                  @ ssc approval_set (cand_names self) @ '',\<newline>''))
                      output1 compact;
          output3 = drop_last2 output2;
          output4 = (if \<not> has_unit_weights self
                     then output3 @ ''\<newline>total weight: '' @ str_int (totalweight self)
                     else output3)
      in output4 @ ''\<newline>'')"

subsection \<open>Sequences of calls\<close>

text \<open>
  The mutating methods of a profile, as calls. \<open>after_call\<close> is the profile when the call has
  returned or raised, \<open>after_calls\<close> the profile after a sequence of calls, each made whether
  or not an earlier one raised.
\<close>

datatype call = AddVoter voter_arg | AddVoters "voter_arg list" | SetItem int voter_arg

fun after_call :: "profile \<Rightarrow> call \<Rightarrow> profile" where
  "after_call self (AddVoter arg) = snd (add_voter arg self)"
| "after_call self (AddVoters args) = snd (add_voters args self)"
| "after_call self (SetItem i arg) = snd (setitem i arg self)"

definition after_calls :: "profile \<Rightarrow> call list \<Rightarrow> profile" where
  "after_calls self cs = foldl after_call self cs"

text \<open>
  The invariant of a profile over \<open>n\<close> candidates: the cache field is \<open>None\<close> and every stored
  voter passes \<open>check_valid(n)\<close>.
\<close>

definition profile_inv :: "int \<Rightarrow> profile \<Rightarrow> bool" where
  "profile_inv n p \<longleftrightarrow> num_cand p = n \<and> approved_cache p = None \<and>
     (\<forall>v\<in>set (voters p). check_valid v (Bound n) None = Inr ())"

subsection \<open>Objects and references\<close>

text \<open>
  Who owns an approval set is a question about objects, so the insertion path is embedded a
  second time over a store. The store holds the collection objects (lists and sets) created so
  far; the address of an object is its position, and a new object gets the next position. A
  \<open>Voter\<close> object refers to its approval set by address. The caller hands over the address of
  a collection, or a \<open>Voter\<close>; whoever holds an address can change the object behind it
  (\<open>mutate\<close>).
\<close>

type_synonym addr = nat

type_synonym store = "pyobj list list"

definition new_object :: "store \<Rightarrow> pyobj list \<Rightarrow> addr \<times> store" where
  "new_object st xs = (length st, st @ [xs])"

definition mutate :: "store \<Rightarrow> addr \<Rightarrow> pyobj list \<Rightarrow> store" where
  "mutate st a xs = st[a := xs]"

record voter_obj =
  approved_at :: addr
  weight_of :: int

datatype voter_ref = AVoterAt voter_obj | RawAt addr

record profile_obj =
  candidates_of :: "int list"
  cand_names_of :: "string list"
  voters_of :: "voter_obj list"
  approved_cache_of :: "pyobj list option"

text \<open>A voter object as the value it has in a store.\<close>

definition view :: "store \<Rightarrow> voter_obj \<Rightarrow> voter" where
  "view st v = \<lparr>approved = st ! approved_at v, weight = weight_of v\<rparr>"

text \<open>
  \<open>Voter.__init__\<close>: \<open>set(approved)\<close> creates a new set object; \<open>check_valid\<close> reads the new
  set and the raw input.
\<close>

definition Voter_init_at :: "store \<Rightarrow> addr \<Rightarrow> int \<Rightarrow> (error + voter_obj) \<times> store" where
  "Voter_init_at st a weight_arg =
     (case new_object st (py_set (st ! a)) of
        (s, st1) \<Rightarrow>
          (let self = \<lparr>approved_at = s, weight_of = weight_arg\<rparr>
           in (case check_valid (view st1 self) Unbounded (Some (st1 ! a)) of
                 Inl e \<Rightarrow> (Inl e, st1)
               | Inr u \<Rightarrow> (Inr self, st1))))"

definition unique_voter_at ::
  "voter_ref \<Rightarrow> store \<Rightarrow> profile_obj \<Rightarrow> (error + voter_obj) \<times> store \<times> profile_obj" where
  "unique_voter_at arg st self =
     (case (case arg of
              AVoterAt v \<Rightarrow> Voter_init_at st (approved_at v) (weight_of v)
            | RawAt a \<Rightarrow> Voter_init_at st a 1) of
        (Inl e, st1) \<Rightarrow> (Inl e, st1, self)
      | (Inr v', st1) \<Rightarrow>
          (let self1 = self\<lparr>approved_cache_of := None\<rparr>
           in (case check_valid (view st1 v')
                       (Bound (int (length (candidates_of self1)))) None of
                 Inl e \<Rightarrow> (Inl e, st1, self1)
               | Inr u \<Rightarrow> (Inr v', st1, self1))))"

definition add_voter_at ::
  "voter_ref \<Rightarrow> store \<Rightarrow> profile_obj \<Rightarrow> (error + unit) \<times> store \<times> profile_obj" where
  "add_voter_at arg st self =
     (case unique_voter_at arg st self of
        (Inl e, st1, self1) \<Rightarrow> (Inl e, st1, self1)
      | (Inr v, st1, self1) \<Rightarrow> (Inr (), st1, self1\<lparr>voters_of := voters_of self1 @ [v]\<rparr>))"

definition setitem_at ::
  "int \<Rightarrow> voter_ref \<Rightarrow> store \<Rightarrow> profile_obj \<Rightarrow> (error + unit) \<times> store \<times> profile_obj" where
  "setitem_at i arg st self =
     (case unique_voter_at arg st self of
        (Inl e, st1, self1) \<Rightarrow> (Inl e, st1, self1)
      | (Inr v, st1, self1) \<Rightarrow>
          (let n = int (length (voters_of self1))
           in if - n \<le> i \<and> i < n
              then (Inr (), st1,
                    self1\<lparr>voters_of := (voters_of self1)[nat (if i < 0 then n + i else i) := v]\<rparr>)
              else (Inl IndexError, st1, self1)))"

text \<open>
  No two stored voters refer to the same approval set, and every stored reference is to an
  object of the store.
\<close>

definition unshared :: "store \<Rightarrow> profile_obj \<Rightarrow> bool" where
  "unshared st self \<longleftrightarrow>
     distinct (map approved_at (voters_of self)) \<and>
     (\<forall>v\<in>set (voters_of self). approved_at v < length st)"

text \<open>The profile of values that a profile of objects stands for in a store.\<close>

definition profile_of :: "store \<Rightarrow> profile_obj \<Rightarrow> profile" where
  "profile_of st self =
     \<lparr>candidates = candidates_of self, cand_names = cand_names_of self,
      voters = map (view st) (voters_of self), approved_cache = approved_cache_of self\<rparr>"

fun arg_of :: "store \<Rightarrow> voter_ref \<Rightarrow> voter_arg" where
  "arg_of st (AVoterAt v) = AVoter (view st v)"
| "arg_of st (RawAt a) = Raw (st ! a)"

text \<open>The collection object that the caller hands over.\<close>

fun addr_of :: "voter_ref \<Rightarrow> addr" where
  "addr_of (AVoterAt v) = approved_at v"
| "addr_of (RawAt a) = a"

section \<open>Properties\<close>

subsection \<open>Sets and the validity check\<close>

lemma set_foldl_set_add: "set (foldl set_add s xs) = set s \<union> set xs"
  by (induction xs arbitrary: s) auto

lemma distinct_foldl_set_add: "distinct s \<Longrightarrow> distinct (foldl set_add s xs)"
  by (induction xs arbitrary: s) auto

lemma set_set_update: "set (set_update s xs) = set s \<union> set xs"
  by (simp add: set_update_def set_foldl_set_add)

lemma set_py_set: "set (py_set xs) = set xs"
  by (simp add: py_set_def set_set_update)

lemma distinct_py_set: "distinct (py_set xs)"
  by (simp add: py_set_def set_update_def distinct_foldl_set_add)

lemma length_py_set: "length (py_set xs) = card (set xs)"
  using distinct_card [OF distinct_py_set, of xs] by (simp add: set_py_set)

lemma foldl_set_add_id: "distinct (s @ xs) \<Longrightarrow> foldl set_add s xs = s @ xs"
  by (induction xs arbitrary: s) auto

lemma py_set_distinct: "distinct xs \<Longrightarrow> py_set xs = xs"
  using foldl_set_add_id [of "[]" xs] by (simp add: py_set_def set_update_def)

lemma length_py_set_less: "length (py_set xs) < length xs \<longleftrightarrow> \<not> distinct xs"
  by (metis length_py_set card_distinct distinct_card nat_neq_iff card_length le_neq_implies_less)

lemma check_candidates_ok:
  "check_candidates cs b = Inr () \<longleftrightarrow> (\<forall>c\<in>set cs. \<exists>i. c = PyInt i \<and> 0 \<le> i \<and> \<not> reaches i b)"
  by (induction cs b rule: check_candidates.induct) auto

lemma check_candidates_error:
  "check_candidates cs b = Inl e \<Longrightarrow> e = InvalidCandidateType \<or> e = CandidateOutOfRange"
  by (induction cs b rule: check_candidates.induct) (auto split: if_splits)

lemma check_candidates_ints:
  "\<forall>c\<in>set cs. \<exists>i. c = PyInt i \<Longrightarrow> \<exists>c\<in>set cs. \<exists>i. c = PyInt i \<and> (i < 0 \<or> reaches i b)
   \<Longrightarrow> check_candidates cs b = Inl CandidateOutOfRange"
  by (induction cs b rule: check_candidates.induct) auto

lemma check_candidates_nonint:
  "\<exists>c\<in>set cs. \<exists>s. c = PyStr s \<Longrightarrow> \<forall>i. PyInt i \<in> set cs \<longrightarrow> 0 \<le> i \<and> \<not> reaches i b
   \<Longrightarrow> check_candidates cs b = Inl InvalidCandidateType"
  by (induction cs b rule: check_candidates.induct) auto


lemma Voter_init_dup: "Voter_init xs w = Inl DuplicateApproval \<longleftrightarrow> length (py_set xs) < length xs"
  by (auto simp: Voter_init_def check_valid_def Let_def split: sum.splits dest: check_candidates_error)

lemma Voter_init_ok:
  "Voter_init xs w = Inr v \<longleftrightarrow>
     distinct xs \<and> (\<forall>c\<in>set xs. \<exists>i. c = PyInt i \<and> 0 \<le> i) \<and> 0 < w \<and> v = \<lparr>approved = py_set xs, weight = w\<rparr>"
proof -
  have "check_candidates (py_set xs) Unbounded = Inr () \<longleftrightarrow> (\<forall>c\<in>set xs. \<exists>i. c = PyInt i \<and> 0 \<le> i)"
    by (simp add: check_candidates_ok set_py_set)
  then show ?thesis
    by (auto simp: Voter_init_def check_valid_def Let_def length_py_set_less split: sum.splits)
qed

subsection \<open>Construction of a voter\<close>

text \<open>
  Claim C4, with the order of the checks made explicit. \<open>Voter(approved, weight)\<close> fails with
  \<open>DuplicateApproval\<close> exactly when the set of the raw input has fewer elements than the raw
  input. The other checks run only when that one passes: an input without duplicates fails
  with \<open>InvalidCandidateType\<close> when an element is no integer and none is a negative integer,
  and an input of distinct non-negative integers fails with \<open>InvalidWeight\<close> when the weight
  is not positive. The empty input is valid for every positive weight, and distinct non-negative
  integers of any size are accepted: there is no upper bound at construction.
\<close>

theorem Voter_init_errors:
  "(Voter_init xs w = Inl DuplicateApproval \<longleftrightarrow> card (set xs) < length xs) \<and>
   (distinct xs \<and> (\<exists>s. PyStr s \<in> set xs) \<and> (\<forall>i. PyInt i \<in> set xs \<longrightarrow> 0 \<le> i)
      \<longrightarrow> Voter_init xs w = Inl InvalidCandidateType) \<and>
   (distinct xs \<and> (\<forall>c\<in>set xs. \<exists>i. c = PyInt i \<and> 0 \<le> i) \<and> w \<le> 0
      \<longrightarrow> Voter_init xs w = Inl InvalidWeight) \<and>
   (0 < w \<longrightarrow> Voter_init [] w = Inr \<lparr>approved = [], weight = w\<rparr>) \<and>
   (distinct xs \<and> (\<forall>c\<in>set xs. \<exists>i. c = PyInt i \<and> 0 \<le> i) \<and> 0 < w
      \<longrightarrow> Voter_init xs w = Inr \<lparr>approved = py_set xs, weight = w\<rparr>)"
proof (intro conjI impI)
  show "Voter_init xs w = Inl DuplicateApproval \<longleftrightarrow> card (set xs) < length xs"
    by (simp add: Voter_init_dup length_py_set)
next
  assume a: "distinct xs \<and> (\<exists>s. PyStr s \<in> set xs) \<and> (\<forall>i. PyInt i \<in> set xs \<longrightarrow> 0 \<le> i)"
  then have "check_candidates (py_set xs) Unbounded = Inl InvalidCandidateType"
    by (intro check_candidates_nonint) (auto simp: set_py_set)
  with a show "Voter_init xs w = Inl InvalidCandidateType"
    by (simp add: Voter_init_def check_valid_def Let_def length_py_set_less)
next
  assume a: "distinct xs \<and> (\<forall>c\<in>set xs. \<exists>i. c = PyInt i \<and> 0 \<le> i) \<and> w \<le> 0"
  then have "check_candidates (py_set xs) Unbounded = Inr ()"
    by (simp add: check_candidates_ok set_py_set)
  with a show "Voter_init xs w = Inl InvalidWeight"
    by (simp add: Voter_init_def check_valid_def Let_def length_py_set_less)
next
  assume "0 < w"
  then show "Voter_init [] w = Inr \<lparr>approved = [], weight = w\<rparr>"
    by (simp add: Voter_init_ok py_set_distinct)
next
  assume "distinct xs \<and> (\<forall>c\<in>set xs. \<exists>i. c = PyInt i \<and> 0 \<le> i) \<and> 0 < w"
  then show "Voter_init xs w = Inr \<lparr>approved = py_set xs, weight = w\<rparr>"
    by (simp add: Voter_init_ok)
qed

text \<open>The theorem at the inputs of the specification: \<open>[1, 2, 1]\<close>, \<open>[1, 2]\<close> with weight 0 and 1.\<close>

theorem Voter_init_errors_witness:
  "Voter_init [PyInt 1, PyInt 2, PyInt 1] 1 = Inl DuplicateApproval \<and>
   Voter_init [PyInt 1, PyStr ''one''] 1 = Inl InvalidCandidateType \<and>
   Voter_init [PyInt 1, PyInt 2] 0 = Inl InvalidWeight \<and>
   Voter_init [] 1 = Inr \<lparr>approved = [], weight = 1\<rparr> \<and>
   Voter_init [PyInt 1, PyInt 2] 1 = Inr \<lparr>approved = [PyInt 1, PyInt 2], weight = 1\<rparr> \<and>
   Voter_init [PyInt 1000000000000] 1 = Inr \<lparr>approved = [PyInt 1000000000000], weight = 1\<rparr>"
  using Voter_init_errors [of "[PyInt 1, PyInt 2, PyInt 1]" 1]
    Voter_init_errors [of "[PyInt 1, PyStr ''one'']" 1]
    Voter_init_errors [of "[PyInt 1, PyInt 2]" 0]
    Voter_init_errors [of "[PyInt 1, PyInt 2]" 1]
    Voter_init_errors [of "[PyInt 1000000000000]" 1]
  by (simp add: py_set_distinct card_insert_if)

text \<open>
  As written, C4 says that a weight \<open>\<le> 0\<close> fails with \<open>InvalidWeight\<close> and an element that is
  no integer with \<open>InvalidCandidateType\<close>. The check for duplicates comes first:
  \<open>Voter([1, 1], weight=0)\<close> and \<open>Voter(["a", "a"])\<close> fail with \<open>DuplicateApproval\<close>.
\<close>

theorem Voter_init_errors_counterexample:
  "Voter_init [PyInt 1, PyInt 1] 0 = Inl DuplicateApproval \<and>
   Voter_init [PyStr ''a'', PyStr ''a''] 1 = Inl DuplicateApproval"
  by (simp add: Voter_init_def check_valid_def py_set_def set_update_def)

subsection \<open>Construction of a profile\<close>

text \<open>
  Claim C5, with the empty sequence of names treated as the code treats it.
  \<open>Profile(num_cand, cand_names)\<close> fails with \<open>InvalidArgument\<close> when \<open>num_cand \<le> 0\<close>, and when a
  non-empty \<open>cand_names\<close> has fewer entries than \<open>num_cand\<close>. Without names, or with an empty
  sequence of names, it gives a profile without voters over the candidates
  \<open>0, ..., num_cand - 1\<close>, named by their indices. With at least \<open>num_cand\<close> names it
  gives the same profile with the first \<open>num_cand\<close> names, each as a string.
\<close>

theorem Profile_init_result:
  "(n \<le> 0 \<longrightarrow> Profile_init n names = Inl InvalidArgument) \<and>
   (0 < n \<and> names = Some ns \<and> ns \<noteq> [] \<and> int (length ns) < n
      \<longrightarrow> Profile_init n names = Inl InvalidArgument) \<and>
   (0 < n \<and> (names = None \<or> names = Some [])
      \<longrightarrow> Profile_init n names =
            Inr \<lparr>candidates = [0..n - 1], cand_names = map str_int [0..n - 1],
                 voters = [], approved_cache = None\<rparr>) \<and>
   (0 < n \<and> names = Some ns \<and> n \<le> int (length ns)
      \<longrightarrow> Profile_init n names =
            Inr \<lparr>candidates = [0..n - 1], cand_names = map py_str (take (nat n) ns),
                 voters = [], approved_cache = None\<rparr>) \<and>
   (Profile_init n names = Inr p \<longrightarrow> num_cand p = n \<and> voters p = [] \<and> length (cand_names p) = nat n)"
  by (auto simp: Profile_init_def Let_def num_cand_def split: option.splits if_splits)

text \<open>The theorem at \<open>num_cand\<close> 0, -2, 3 and 2.\<close>

theorem Profile_init_result_witness:
  "Profile_init 0 None = Inl InvalidArgument \<and>
   Profile_init (- 2) (Some [PyStr ''a'']) = Inl InvalidArgument \<and>
   Profile_init 3 (Some [PyStr ''a'', PyStr ''b'']) = Inl InvalidArgument \<and>
   Profile_init 3 None =
     Inr \<lparr>candidates = [0, 1, 2], cand_names = [''0'', ''1'', ''2''], voters = [],
          approved_cache = None\<rparr> \<and>
   Profile_init 2 (Some [PyStr ''a'', PyInt 7, PyStr ''c'']) =
     Inr \<lparr>candidates = [0, 1], cand_names = [''a'', ''7''], voters = [],
          approved_cache = None\<rparr> \<and>
   num_cand \<lparr>candidates = [0, 1], cand_names = [''a'', ''7''], voters = [],
          approved_cache = None\<rparr> = 2"
  using Profile_init_result [of 0 None]
    Profile_init_result [of "- 2" "Some [PyStr ''a'']" "[PyStr ''a'']"]
    Profile_init_result [of 3 "Some [PyStr ''a'', PyStr ''b'']" "[PyStr ''a'', PyStr ''b'']"]
    Profile_init_result [of 3 None]
    Profile_init_result [of 2 "Some [PyStr ''a'', PyInt 7, PyStr ''c'']" "[PyStr ''a'', PyInt 7, PyStr ''c'']"
       "\<lparr>candidates = [0, 1], cand_names = [''a'', ''7''], voters = [], approved_cache = None\<rparr>"]
  by (simp add: str_int_def str_nat.simps digit_char_def upto.simps num_cand_def)

text \<open>
  As written, C5 says that names with fewer entries than \<open>num_cand\<close> fail. The empty sequence
  has fewer entries than 3, and \<open>Profile(3, cand_names=[])\<close> succeeds with the default names:
  the test \<open>if cand_names:\<close> is false for it.
\<close>

theorem Profile_init_empty_names_counterexample:
  "int (length ([] :: pyobj list)) < 3 \<and>
   Profile_init 3 (Some []) =
     Inr \<lparr>candidates = [0, 1, 2], cand_names = [''0'', ''1'', ''2''], voters = [],
          approved_cache = None\<rparr>"
  by (simp add: Profile_init_def str_int_def str_nat.simps digit_char_def upto.simps)


subsection \<open>Insertion and replacement\<close>

lemma unique_voter_frame:
  "unique_voter arg p = (r, p') \<Longrightarrow> p' = p \<or> p' = p\<lparr>approved_cache := None\<rparr>"
  by (auto simp: unique_voter_def Let_def split: sum.splits voter_arg.splits)

lemma unique_voter_Inr:
  "unique_voter arg p = (Inr v, p') \<Longrightarrow>
     p' = p\<lparr>approved_cache := None\<rparr> \<and> check_valid v (Bound (num_cand p)) None = Inr ()"
  by (auto simp: unique_voter_def Let_def num_cand_def split: sum.splits voter_arg.splits)

lemma check_valid_error:
  "check_valid v b raw = Inl e \<Longrightarrow>
     e \<in> {DuplicateApproval, InvalidCandidateType, CandidateOutOfRange, InvalidWeight}"
  unfolding check_valid_def
  by (cases "check_candidates (approved v) b")
     (auto split: if_splits dest: check_candidates_error)

lemma Voter_init_error:
  "Voter_init xs w = Inl e \<Longrightarrow>
     e \<in> {DuplicateApproval, InvalidCandidateType, CandidateOutOfRange, InvalidWeight}"
  unfolding Voter_init_def Let_def
  by (cases "check_valid \<lparr>approved = py_set xs, weight = w\<rparr> Unbounded (Some xs)")
     (auto dest: check_valid_error)

lemma unique_voter_error:
  "unique_voter arg p = (Inl e, p') \<Longrightarrow>
     e \<in> {DuplicateApproval, InvalidCandidateType, CandidateOutOfRange, InvalidWeight}"
  unfolding unique_voter_def Let_def
  by (cases arg) (auto split: sum.splits dest: check_valid_error Voter_init_error)

lemma unique_voter_candidates:
  "candidates p' = candidates p \<Longrightarrow> fst (unique_voter arg p') = fst (unique_voter arg p)"
  by (auto simp: unique_voter_def Let_def num_cand_def split: sum.splits voter_arg.splits)

lemma add_voter_Inl:
  "add_voter arg p = (Inl e, p') \<Longrightarrow>
     fst (unique_voter arg p) = Inl e \<and> (p' = p \<or> p' = p\<lparr>approved_cache := None\<rparr>)"
  by (auto simp: add_voter_def split: prod.splits sum.splits dest: unique_voter_frame)

lemma add_voter_Inr:
  "add_voter arg p = (Inr u, p') \<Longrightarrow>
     \<exists>v. fst (unique_voter arg p) = Inr v \<and> check_valid v (Bound (num_cand p)) None = Inr () \<and>
         p' = p\<lparr>approved_cache := None, voters := voters p @ [v]\<rparr>"
  by (auto simp: add_voter_def split: prod.splits sum.splits dest: unique_voter_Inr)

lemma setitem_Inl:
  "setitem i arg p = (Inl e, p') \<Longrightarrow> p' = p \<or> p' = p\<lparr>approved_cache := None\<rparr>"
  by (auto simp: setitem_def Let_def split: prod.splits sum.splits if_splits
      dest: unique_voter_frame)

lemma setitem_Inr:
  "setitem i arg p = (Inr u, p') \<Longrightarrow>
     \<exists>v. fst (unique_voter arg p) = Inr v \<and> check_valid v (Bound (num_cand p)) None = Inr () \<and>
         - int (length (voters p)) \<le> i \<and> i < int (length (voters p)) \<and>
         p' = p\<lparr>approved_cache := None,
                voters := (voters p)[nat (if i < 0 then int (length (voters p)) + i else i) := v]\<rparr>"
  by (auto simp: setitem_def Let_def split: prod.splits sum.splits if_splits
      dest!: unique_voter_Inr)

lemma inv_cache: "profile_inv n p \<Longrightarrow> profile_inv n (p\<lparr>approved_cache := None\<rparr>)"
  by (simp add: profile_inv_def num_cand_def)

lemma inv_add_voter: "profile_inv n p \<Longrightarrow> profile_inv n (snd (add_voter arg p))"
proof -
  assume i: "profile_inv n p"
  obtain r p' where a: "add_voter arg p = (r, p')" by (cases "add_voter arg p")
  show ?thesis
  proof (cases r)
    case (Inl e)
    with a i show ?thesis by (auto dest!: add_voter_Inl simp: inv_cache)
  next
    case (Inr u)
    with a i show ?thesis by (auto dest!: add_voter_Inr simp: profile_inv_def num_cand_def)
  qed
qed

lemma inv_add_voters: "profile_inv n p \<Longrightarrow> profile_inv n (snd (add_voters args p))"
proof (induction args arbitrary: p)
  case Nil
  then show ?case by simp
next
  case (Cons a args)
  from Cons.prems have "profile_inv n (snd (add_voter a p))" by (rule inv_add_voter)
  with Cons.IH [of "snd (add_voter a p)"] show ?case
    by (auto split: prod.splits sum.splits)
qed

lemma inv_setitem: "profile_inv n p \<Longrightarrow> profile_inv n (snd (setitem i arg p))"
proof -
  assume i: "profile_inv n p"
  obtain r p' where a: "setitem i arg p = (r, p')" by (cases "setitem i arg p")
  show ?thesis
  proof (cases r)
    case (Inl e)
    with a i show ?thesis by (auto dest!: setitem_Inl simp: inv_cache)
  next
    case (Inr u)
    with a obtain v k where p': "p' = p\<lparr>approved_cache := None, voters := (voters p)[k := v]\<rparr>"
      and v: "check_valid v (Bound (num_cand p)) None = Inr ()"
      by (blast dest: setitem_Inr)
    have "set ((voters p)[k := v]) \<subseteq> insert v (set (voters p))"
      by (rule set_update_subset_insert)
    with i v show ?thesis
      unfolding a p' profile_inv_def num_cand_def by auto
  qed
qed

lemma inv_after_call: "profile_inv n p \<Longrightarrow> profile_inv n (after_call p c)"
  by (cases c) (simp_all add: inv_add_voter inv_add_voters inv_setitem)

lemma inv_after_calls: "profile_inv n p \<Longrightarrow> profile_inv n (after_calls p cs)"
  unfolding after_calls_def by (induction cs arbitrary: p) (simp_all add: inv_after_call)

lemma inv_Profile_init: "Profile_init n names = Inr p \<Longrightarrow> profile_inv n p"
  by (auto simp: Profile_init_def Let_def profile_inv_def num_cand_def split: option.splits if_splits)

lemma check_valid_bound:
  "check_valid v (Bound n) None = Inr () \<longleftrightarrow>
     (\<forall>c\<in>set (approved v). \<exists>i. c = PyInt i \<and> 0 \<le> i \<and> i < n) \<and> 0 < weight v"
proof -
  have "check_candidates (approved v) (Bound n) = Inr () \<longleftrightarrow>
      (\<forall>c\<in>set (approved v). \<exists>i. c = PyInt i \<and> 0 \<le> i \<and> i < n)"
    by (simp add: check_candidates_ok not_le)
  then show ?thesis
    by (cases "check_candidates (approved v) (Bound n)") (auto simp: check_valid_def)
qed

lemmas eval_defs =
  after_calls_def add_voter_def setitem_def unique_voter_def Voter_init_def check_valid_def
  py_set_def set_update_def num_cand_def

text \<open>
  Claim C1. In a profile constructed over \<open>n\<close> candidates, after any sequence of calls of
  \<open>add_voter\<close>, \<open>add_voters\<close> and \<open>__setitem__\<close>, whether they return or raise, the number
  of candidates is still \<open>n\<close> and every stored voter passes \<open>check_valid(num_cand)\<close>: each of
  its approved candidates is an integer in \<open>[0, num_cand)\<close> and its weight is positive.
\<close>

theorem stored_voters_valid:
  "Profile_init n names = Inr p0 \<Longrightarrow> v \<in> set (voters (after_calls p0 cs)) \<Longrightarrow>
     num_cand (after_calls p0 cs) = n \<and>
     check_valid v (Bound n) None = Inr () \<and>
     (\<forall>c\<in>set (approved v). \<exists>i. c = PyInt i \<and> 0 \<le> i \<and> i < n) \<and>
     0 < weight v"
proof -
  assume "Profile_init n names = Inr p0" and v: "v \<in> set (voters (after_calls p0 cs))"
  then have "profile_inv n (after_calls p0 cs)"
    by (intro inv_after_calls inv_Profile_init)
  with v have n: "num_cand (after_calls p0 cs) = n" and c: "check_valid v (Bound n) None = Inr ()"
    by (auto simp: profile_inv_def)
  from n c show ?thesis
    using check_valid_bound [of v n] by simp
qed

text \<open>
  Over three candidates: an insertion, a rejected insertion, a bulk insertion that fails at its
  second element, and a replacement at index -1.
\<close>

theorem stored_voters_valid_witness:
  "Profile_init 3 None =
     Inr \<lparr>candidates = [0, 1, 2], cand_names = [''0'', ''1'', ''2''], voters = [],
          approved_cache = None\<rparr> \<and>
   voters (after_calls
       \<lparr>candidates = [0, 1, 2], cand_names = [''0'', ''1'', ''2''], voters = [],
          approved_cache = None\<rparr>
       [AddVoter (Raw [PyInt 0, PyInt 2]),
        AddVoter (Raw [PyInt 3]),
        AddVoters [AVoter \<lparr>approved = [PyInt 1], weight = 2\<rparr>, Raw [PyInt 1, PyInt 1],
                   Raw [PyInt 0]],
        SetItem (- 1) (Raw [PyInt 1, PyInt 2])]) =
     [\<lparr>approved = [PyInt 0, PyInt 2], weight = 1\<rparr>,
      \<lparr>approved = [PyInt 1, PyInt 2], weight = 1\<rparr>] \<and>
   check_valid \<lparr>approved = [PyInt 1, PyInt 2], weight = 1\<rparr> (Bound 3) None = Inr ()"
proof -
  let ?p0 = "\<lparr>candidates = [0, 1, 2], cand_names = [''0'', ''1'', ''2''], voters = [],
          approved_cache = None\<rparr>"
  let ?cs = "[AddVoter (Raw [PyInt 0, PyInt 2]),
        AddVoter (Raw [PyInt 3]),
        AddVoters [AVoter \<lparr>approved = [PyInt 1], weight = 2\<rparr>, Raw [PyInt 1, PyInt 1],
                   Raw [PyInt 0]],
        SetItem (- 1) (Raw [PyInt 1, PyInt 2])]"
  have i: "Profile_init 3 None = Inr ?p0"
    by (simp add: Profile_init_def str_int_def str_nat.simps digit_char_def upto.simps)
  have vs: "voters (after_calls ?p0 ?cs) =
     [\<lparr>approved = [PyInt 0, PyInt 2], weight = 1\<rparr>,
      \<lparr>approved = [PyInt 1, PyInt 2], weight = 1\<rparr>]"
    by (simp add: eval_defs)
  then have m: "\<lparr>approved = [PyInt 1, PyInt 2], weight = 1\<rparr> \<in> set (voters (after_calls ?p0 ?cs))"
    by simp
  have "check_valid \<lparr>approved = [PyInt 1, PyInt 2], weight = 1\<rparr> (Bound 3) None = Inr ()"
    using stored_voters_valid [OF i m] by blast
  with i vs show ?thesis by blast
qed

lemma set_foldl_approved:
  "set (foldl (\<lambda>acc v. set_update acc (approved v)) s vs) = set s \<union> (\<Union>v\<in>set vs. set (approved v))"
  by (induction vs arbitrary: s) (auto simp: set_set_update)

text \<open>
  Claim C3. Reading \<open>approved_candidates\<close> of a new profile gives the empty set, and after any
  sequence of calls of \<open>add_voter\<close>, \<open>add_voters\<close> and \<open>__setitem__\<close> it returns (it does not
  raise) a set whose elements are exactly the union of the approval sets stored at that moment.
\<close>

theorem approved_candidates_union:
  "Profile_init n names = Inr p0 \<Longrightarrow>
     approved_candidates p0 = Inr [] \<and>
     (\<exists>s. approved_candidates (after_calls p0 cs) = Inr s \<and>
          set s = (\<Union>v\<in>set (voters (after_calls p0 cs)). set (approved v)))"
proof -
  assume i: "Profile_init n names = Inr p0"
  then have "profile_inv n p0" by (rule inv_Profile_init)
  then have "profile_inv n (after_calls p0 cs)" by (rule inv_after_calls)
  then have "approved_cache (after_calls p0 cs) = None" by (simp add: profile_inv_def)
  then have "\<exists>s. approved_candidates (after_calls p0 cs) = Inr s \<and>
          set s = (\<Union>v\<in>set (voters (after_calls p0 cs)). set (approved v))"
    by (simp add: approved_candidates_def set_foldl_approved)
  moreover from i have "approved_candidates p0 = Inr []"
    by (auto simp: approved_candidates_def Profile_init_def Let_def split: if_splits option.splits)
  ultimately show ?thesis by simp
qed


text \<open>After \<open>{0}\<close> and \<open>{1, 2}\<close> the union is \<open>{0, 1, 2}\<close>; after \<open>{3}\<close> as well, \<open>{0, 1, 2, 3}\<close>.\<close>

theorem approved_candidates_union_witness:
  "Profile_init 4 None =
     Inr \<lparr>candidates = [0, 1, 2, 3], cand_names = [''0'', ''1'', ''2'', ''3''], voters = [],
          approved_cache = None\<rparr> \<and>
   map_sum id set (approved_candidates (after_calls
       \<lparr>candidates = [0, 1, 2, 3], cand_names = [''0'', ''1'', ''2'', ''3''], voters = [],
          approved_cache = None\<rparr>
       [AddVoter (Raw [PyInt 0]), AddVoter (Raw [PyInt 1, PyInt 2])])) =
     Inr {PyInt 0, PyInt 1, PyInt 2} \<and>
   map_sum id set (approved_candidates (after_calls
       \<lparr>candidates = [0, 1, 2, 3], cand_names = [''0'', ''1'', ''2'', ''3''], voters = [],
          approved_cache = None\<rparr>
       [AddVoter (Raw [PyInt 0]), AddVoter (Raw [PyInt 1, PyInt 2]), AddVoter (Raw [PyInt 3])])) =
     Inr {PyInt 0, PyInt 1, PyInt 2, PyInt 3}"
proof -
  let ?p0 = "\<lparr>candidates = [0, 1, 2, 3], cand_names = [''0'', ''1'', ''2'', ''3''], voters = [],
          approved_cache = None\<rparr>"
  let ?cs2 = "[AddVoter (Raw [PyInt 0]), AddVoter (Raw [PyInt 1, PyInt 2])]"
  let ?cs3 = "[AddVoter (Raw [PyInt 0]), AddVoter (Raw [PyInt 1, PyInt 2]), AddVoter (Raw [PyInt 3])]"
  have i: "Profile_init 4 None = Inr ?p0"
    by (simp add: Profile_init_def str_int_def str_nat.simps digit_char_def upto.simps)
  have v2: "voters (after_calls ?p0 ?cs2) =
      [\<lparr>approved = [PyInt 0], weight = 1\<rparr>, \<lparr>approved = [PyInt 1, PyInt 2], weight = 1\<rparr>]"
    by (simp add: eval_defs)
  have v3: "voters (after_calls ?p0 ?cs3) =
      [\<lparr>approved = [PyInt 0], weight = 1\<rparr>, \<lparr>approved = [PyInt 1, PyInt 2], weight = 1\<rparr>,
       \<lparr>approved = [PyInt 3], weight = 1\<rparr>]"
    by (simp add: eval_defs)
  from approved_candidates_union [OF i, of ?cs2] obtain s2 where
    s2: "approved_candidates (after_calls ?p0 ?cs2) = Inr s2"
      "set s2 = (\<Union>v\<in>set (voters (after_calls ?p0 ?cs2)). set (approved v))"
    by blast
  from approved_candidates_union [OF i, of ?cs3] obtain s3 where
    s3: "approved_candidates (after_calls ?p0 ?cs3) = Inr s3"
      "set s3 = (\<Union>v\<in>set (voters (after_calls ?p0 ?cs3)). set (approved v))"
    by blast
  have "set s2 = {PyInt 0, PyInt 1, PyInt 2}"
    unfolding s2(2) v2 by auto
  moreover have "set s3 = {PyInt 0, PyInt 1, PyInt 2, PyInt 3}"
    unfolding s3(2) v3 by auto
  ultimately show ?thesis
    using i by (simp add: s2(1) s3(1))
qed

lemma add_voters_append:
  "add_voters (xs @ ys) p =
     (case add_voters xs p of (Inl e, q) \<Rightarrow> (Inl e, q) | (Inr u, q) \<Rightarrow> add_voters ys q)"
  by (induction xs arbitrary: p) (auto split: prod.splits sum.splits)

lemma add_voter_candidates: "candidates (snd (add_voter arg p)) = candidates p"
  by (cases "add_voter arg p", cases "fst (add_voter arg p)")
     (auto dest!: add_voter_Inl add_voter_Inr)

lemma add_voters_stored:
  "add_voters xs p = (Inr u, q) \<Longrightarrow>
     \<exists>stored. voters q = voters p @ stored \<and>
       list_all2 (\<lambda>arg v. fst (unique_voter arg p) = Inr v) xs stored"
proof (induction xs arbitrary: p)
  case Nil
  then show ?case by simp
next
  case (Cons x xs)
  from Cons.prems obtain p1 where x: "add_voter x p = (Inr (), p1)" and r: "add_voters xs p1 = (Inr u, q)"
    by (auto split: prod.splits sum.splits)
  from x obtain v where v: "fst (unique_voter x p) = Inr v"
    and p1: "p1 = p\<lparr>approved_cache := None, voters := voters p @ [v]\<rparr>"
    by (blast dest: add_voter_Inr)
  from Cons.IH [OF r] obtain stored where s: "voters q = voters p1 @ stored"
    and l: "list_all2 (\<lambda>arg v. fst (unique_voter arg p1) = Inr v) xs stored"
    by blast
  have "candidates p1 = candidates p" by (simp add: p1)
  then have "\<And>arg. fst (unique_voter arg p1) = fst (unique_voter arg p)"
    by (rule unique_voter_candidates)
  with l have "list_all2 (\<lambda>arg v. fst (unique_voter arg p) = Inr v) (x # xs) (v # stored)"
    using v by simp
  moreover have "voters q = voters p @ (v # stored)"
    by (simp add: s p1)
  ultimately show ?case by blast
qed

text \<open>
  Claim C7. \<open>add_voters\<close> calls \<open>add_voter\<close> on the elements in order: on \<open>xs @ ys\<close> it is
  \<open>add_voters xs\<close> followed, if that returned, by \<open>add_voters ys\<close>. When the elements
  \<open>pre\<close> are accepted and \<open>add_voter\<close> raises \<open>e\<close> on the next element \<open>bad\<close>, then
  \<open>add_voters\<close> raises \<open>e\<close>, the voters built from \<open>pre\<close> stay appended to the profile, and
  neither \<open>bad\<close> nor the elements after it are inserted.
\<close>

theorem add_voters_not_atomic:
  "add_voters (xs @ ys) p =
     (case add_voters xs p of (Inl e, q) \<Rightarrow> (Inl e, q) | (Inr u, q) \<Rightarrow> add_voters ys q) \<and>
   (add_voters pre p = (Inr (), p1) \<and> add_voter bad p1 = (Inl e, p2) \<longrightarrow>
      add_voters (pre @ bad # post) p = (Inl e, p2) \<and>
      voters p2 = voters p1 \<and>
      (\<exists>stored. voters p1 = voters p @ stored \<and>
         list_all2 (\<lambda>arg v. fst (unique_voter arg p) = Inr v) pre stored))"
proof (intro conjI impI)
  show "add_voters (xs @ ys) p =
     (case add_voters xs p of (Inl e, q) \<Rightarrow> (Inl e, q) | (Inr u, q) \<Rightarrow> add_voters ys q)"
    by (rule add_voters_append)
next
  assume a: "add_voters pre p = (Inr (), p1) \<and> add_voter bad p1 = (Inl e, p2)"
  then show "add_voters (pre @ bad # post) p = (Inl e, p2)"
    by (simp add: add_voters_append)
  from a show "voters p2 = voters p1"
    by (auto dest!: add_voter_Inl)
  from a show "\<exists>stored. voters p1 = voters p @ stored \<and>
         list_all2 (\<lambda>arg v. fst (unique_voter arg p) = Inr v) pre stored"
    by (blast dest: add_voters_stored)
qed

text \<open>Over three candidates, \<open>[[0], [1, 2], [5], [2]]\<close> leaves \<open>{0}\<close> and \<open>{1, 2}\<close> stored.\<close>

theorem add_voters_not_atomic_witness:
  "add_voters [Raw [PyInt 0], Raw [PyInt 1, PyInt 2], Raw [PyInt 5], Raw [PyInt 2]]
     \<lparr>candidates = [0, 1, 2], cand_names = [''0'', ''1'', ''2''], voters = [],
        approved_cache = None\<rparr> =
   (Inl CandidateOutOfRange,
    \<lparr>candidates = [0, 1, 2], cand_names = [''0'', ''1'', ''2''],
       voters = [\<lparr>approved = [PyInt 0], weight = 1\<rparr>,
                 \<lparr>approved = [PyInt 1, PyInt 2], weight = 1\<rparr>],
       approved_cache = None\<rparr>)"
proof -
  let ?p = "\<lparr>candidates = [0, 1, 2], cand_names = [''0'', ''1'', ''2''], voters = [],
        approved_cache = None\<rparr>"
  let ?p1 = "\<lparr>candidates = [0, 1, 2], cand_names = [''0'', ''1'', ''2''],
       voters = [\<lparr>approved = [PyInt 0], weight = 1\<rparr>,
                 \<lparr>approved = [PyInt 1, PyInt 2], weight = 1\<rparr>],
       approved_cache = None\<rparr>"
  have a: "add_voters [Raw [PyInt 0], Raw [PyInt 1, PyInt 2]] ?p = (Inr (), ?p1)"
    by (simp add: eval_defs)
  have b: "add_voter (Raw [PyInt 5]) ?p1 = (Inl CandidateOutOfRange, ?p1)"
    by (simp add: eval_defs)
  from a b add_voters_not_atomic [of "[]" "[]" ?p "[Raw [PyInt 0], Raw [PyInt 1, PyInt 2]]" ?p1
      "Raw [PyInt 5]" CandidateOutOfRange ?p1 "[Raw [PyInt 2]]"]
  have "add_voters ([Raw [PyInt 0], Raw [PyInt 1, PyInt 2]] @ Raw [PyInt 5] # [Raw [PyInt 2]]) ?p
      = (Inl CandidateOutOfRange, ?p1)"
    by blast
  then show ?thesis by simp
qed

lemma Voter_init_range:
  assumes d: "distinct xs" and ints: "\<forall>c\<in>set xs. \<exists>i. c = PyInt i"
    and out: "\<exists>i. PyInt i \<in> set xs \<and> (i < 0 \<or> n \<le> i)" and w: "0 < w"
  shows "Voter_init xs w = Inl CandidateOutOfRange \<or>
     (Voter_init xs w = Inr \<lparr>approved = py_set xs, weight = w\<rparr> \<and>
      check_valid \<lparr>approved = py_set xs, weight = w\<rparr> (Bound n) None = Inl CandidateOutOfRange)"
proof (cases "\<exists>i. PyInt i \<in> set xs \<and> i < 0")
  case True
  with ints have "check_candidates (py_set xs) Unbounded = Inl CandidateOutOfRange"
    by (intro check_candidates_ints) (auto simp: set_py_set)
  with d show ?thesis
    by (simp add: Voter_init_def check_valid_def length_py_set_less)
next
  case False
  with ints have "\<forall>c\<in>set xs. \<exists>i. c = PyInt i \<and> 0 \<le> i"
    by (metis not_le)
  with d w have 1: "Voter_init xs w = Inr \<lparr>approved = py_set xs, weight = w\<rparr>"
    by (simp add: Voter_init_ok)
  from ints out have "check_candidates (py_set xs) (Bound n) = Inl CandidateOutOfRange"
    by (intro check_candidates_ints) (auto simp: set_py_set)
  then have "check_valid \<lparr>approved = py_set xs, weight = w\<rparr> (Bound n) None = Inl CandidateOutOfRange"
    by (simp add: check_valid_def)
  with 1 show ?thesis by simp
qed

lemma unique_voter_range:
  assumes "distinct xs" and "\<forall>c\<in>set xs. \<exists>i. c = PyInt i"
    and "\<exists>i. PyInt i \<in> set xs \<and> (i < 0 \<or> num_cand p \<le> i)" and "0 < w"
    and "arg = Raw xs \<and> w = 1 \<or> arg = AVoter \<lparr>approved = xs, weight = w\<rparr>"
  shows "fst (unique_voter arg p) = Inl CandidateOutOfRange"
  using Voter_init_range [OF assms(1-4)] assms(5)
  by (auto simp: unique_voter_def num_cand_def)

lemma add_voter_fst_Inl:
  "fst (unique_voter arg p) = Inl e \<Longrightarrow>
     fst (add_voter arg p) = Inl e \<and> voters (snd (add_voter arg p)) = voters p"
  by (cases "unique_voter arg p") (auto simp: add_voter_def dest: unique_voter_frame)

text \<open>
  Claim C6, with the order of the checks made explicit. When \<open>add_voter\<close> raises, the error is
  one of the four validation errors and the sequence of voters is unchanged; when it returns,
  one voter has been appended. An input of distinct integers of which one is \<open>< 0\<close> or
  \<open>\<ge> num_cand\<close> fails with \<open>CandidateOutOfRange\<close>, given as a raw iterable or as a \<open>Voter\<close> of
  positive weight.
\<close>

theorem add_voter_atomic:
  "(add_voter arg p = (Inl e, p') \<longrightarrow>
      voters p' = voters p \<and>
      e \<in> {DuplicateApproval, InvalidCandidateType, CandidateOutOfRange, InvalidWeight}) \<and>
   (add_voter arg p = (Inr u, p') \<longrightarrow> length (voters p') = Suc (length (voters p))) \<and>
   (distinct xs \<and> (\<forall>c\<in>set xs. \<exists>i. c = PyInt i) \<and>
    (\<exists>i. PyInt i \<in> set xs \<and> (i < 0 \<or> num_cand p \<le> i))
      \<longrightarrow> fst (add_voter (Raw xs) p) = Inl CandidateOutOfRange \<and>
          voters (snd (add_voter (Raw xs) p)) = voters p) \<and>
   (distinct xs \<and> (\<forall>c\<in>set xs. \<exists>i. c = PyInt i) \<and>
    (\<exists>i. PyInt i \<in> set xs \<and> (i < 0 \<or> num_cand p \<le> i)) \<and> 0 < w
      \<longrightarrow> fst (add_voter (AVoter \<lparr>approved = xs, weight = w\<rparr>) p) = Inl CandidateOutOfRange \<and>
          voters (snd (add_voter (AVoter \<lparr>approved = xs, weight = w\<rparr>) p)) = voters p)"
proof (intro conjI impI)
  assume a: "add_voter arg p = (Inl e, p')"
  then show "voters p' = voters p"
    by (auto dest!: add_voter_Inl)
  from a have "fst (unique_voter arg p) = Inl e"
    by (simp add: add_voter_Inl)
  then show "e \<in> {DuplicateApproval, InvalidCandidateType, CandidateOutOfRange, InvalidWeight}"
    by (cases "unique_voter arg p") (auto dest: unique_voter_error)
next
  assume "add_voter arg p = (Inr u, p')"
  then show "length (voters p') = Suc (length (voters p))"
    by (auto dest!: add_voter_Inr)
next
  assume a: "distinct xs \<and> (\<forall>c\<in>set xs. \<exists>i. c = PyInt i) \<and>
    (\<exists>i. PyInt i \<in> set xs \<and> (i < 0 \<or> num_cand p \<le> i))"
  then have "fst (unique_voter (Raw xs) p) = Inl CandidateOutOfRange"
    by (intro unique_voter_range [where w = 1 and xs = xs]) auto
  then show "fst (add_voter (Raw xs) p) = Inl CandidateOutOfRange"
    and "voters (snd (add_voter (Raw xs) p)) = voters p"
    by (simp_all add: add_voter_fst_Inl)
next
  assume a: "distinct xs \<and> (\<forall>c\<in>set xs. \<exists>i. c = PyInt i) \<and>
    (\<exists>i. PyInt i \<in> set xs \<and> (i < 0 \<or> num_cand p \<le> i)) \<and> 0 < w"
  then have "fst (unique_voter (AVoter \<lparr>approved = xs, weight = w\<rparr>) p) = Inl CandidateOutOfRange"
    by (intro unique_voter_range [where w = w and xs = xs]) auto
  then show "fst (add_voter (AVoter \<lparr>approved = xs, weight = w\<rparr>) p) = Inl CandidateOutOfRange"
    and "voters (snd (add_voter (AVoter \<lparr>approved = xs, weight = w\<rparr>) p)) = voters p"
    by (simp_all add: add_voter_fst_Inl)
qed


text \<open>Over three candidates with one stored voter: \<open>[0, 3]\<close> and a \<open>Voter\<close> of \<open>{-1}\<close> are rejected.\<close>

theorem add_voter_atomic_witness:
  "add_voter (Raw [PyInt 0, PyInt 3])
     \<lparr>candidates = [0, 1, 2], cand_names = [''0'', ''1'', ''2''],
        voters = [\<lparr>approved = [PyInt 1], weight = 1\<rparr>], approved_cache = None\<rparr> =
     (Inl CandidateOutOfRange,
      \<lparr>candidates = [0, 1, 2], cand_names = [''0'', ''1'', ''2''],
         voters = [\<lparr>approved = [PyInt 1], weight = 1\<rparr>], approved_cache = None\<rparr>) \<and>
   fst (add_voter (AVoter \<lparr>approved = [PyInt (- 1)], weight = 2\<rparr>)
     \<lparr>candidates = [0, 1, 2], cand_names = [''0'', ''1'', ''2''],
        voters = [\<lparr>approved = [PyInt 1], weight = 1\<rparr>], approved_cache = None\<rparr>) =
     Inl CandidateOutOfRange \<and>
   voters (snd (add_voter (Raw [PyInt 0, PyInt 2])
     \<lparr>candidates = [0, 1, 2], cand_names = [''0'', ''1'', ''2''],
        voters = [\<lparr>approved = [PyInt 1], weight = 1\<rparr>], approved_cache = None\<rparr>)) =
     [\<lparr>approved = [PyInt 1], weight = 1\<rparr>, \<lparr>approved = [PyInt 0, PyInt 2], weight = 1\<rparr>]"
proof -
  let ?p = "\<lparr>candidates = [0, 1, 2], cand_names = [''0'', ''1'', ''2''],
        voters = [\<lparr>approved = [PyInt 1], weight = 1\<rparr>], approved_cache = None\<rparr>"
  have n: "num_cand ?p = 3" by (simp add: num_cand_def)
  have 1: "fst (add_voter (Raw [PyInt 0, PyInt 3]) ?p) = Inl CandidateOutOfRange"
    and 2: "voters (snd (add_voter (Raw [PyInt 0, PyInt 3]) ?p)) = voters ?p"
    using add_voter_atomic [of _ ?p _ _ _ "[PyInt 0, PyInt 3]" 1] n
    by auto
  have 3: "fst (add_voter (AVoter \<lparr>approved = [PyInt (- 1)], weight = 2\<rparr>) ?p) = Inl CandidateOutOfRange"
    using add_voter_atomic [of _ ?p _ _ _ "[PyInt (- 1)]" 2] n
    by auto
  have e: "add_voter (Raw [PyInt 0, PyInt 3]) ?p = (Inl CandidateOutOfRange, ?p)"
    by (simp add: eval_defs)
  have 4: "voters (snd (add_voter (Raw [PyInt 0, PyInt 2]) ?p)) =
     [\<lparr>approved = [PyInt 1], weight = 1\<rparr>, \<lparr>approved = [PyInt 0, PyInt 2], weight = 1\<rparr>]"
    by (simp add: eval_defs)
  from e 1 2 3 4 show ?thesis by simp
qed

text \<open>
  As written, C6 says that every input with an index \<open>\<ge> num_cand\<close> fails with
  \<open>CandidateOutOfRange\<close>. Over three candidates \<open>add_voter([5, 5])\<close> fails with
  \<open>DuplicateApproval\<close>: the duplicates are found first.
\<close>

theorem add_voter_duplicate_counterexample:
  "num_cand \<lparr>candidates = [0, 1, 2], cand_names = [''0'', ''1'', ''2''], voters = [],
        approved_cache = None\<rparr> = 3 \<and>
   PyInt 5 \<in> set [PyInt 5, PyInt 5] \<and>
   add_voter (Raw [PyInt 5, PyInt 5])
     \<lparr>candidates = [0, 1, 2], cand_names = [''0'', ''1'', ''2''], voters = [],
        approved_cache = None\<rparr> =
     (Inl DuplicateApproval,
      \<lparr>candidates = [0, 1, 2], cand_names = [''0'', ''1'', ''2''], voters = [],
         approved_cache = None\<rparr>)"
  by (simp add: eval_defs)

subsection \<open>Party lists\<close>

lemma length_filter_eq_length: "length (filter P xs) = length xs \<longleftrightarrow> (\<forall>x\<in>set xs. P x)"
proof (induction xs)
  case Nil
  then show ?case by simp
next
  case (Cons x xs)
  have "length (filter P xs) \<le> length xs" by (rule length_filter_le)
  then have "length (filter P xs) \<noteq> Suc (length xs)" by linarith
  with Cons show ?case by auto
qed

lemma pair_ok_card:
  "length (set_inter a b) \<in> {0, length a} \<longleftrightarrow> card (set a \<inter> set b) \<in> {0, card (set a)}"
proof -
  have 1: "length (set_inter a b) = 0 \<longleftrightarrow> set a \<inter> set b = {}"
    by (auto simp: set_inter_def filter_empty_conv)
  have 2: "length (set_inter a b) = length a \<longleftrightarrow> set a \<subseteq> set b"
    by (auto simp: set_inter_def length_filter_eq_length)
  have 3: "card (set a \<inter> set b) = 0 \<longleftrightarrow> set a \<inter> set b = {}"
    by simp
  have 4: "card (set a \<inter> set b) = card (set a) \<longleftrightarrow> set a \<subseteq> set b"
  proof
    assume "card (set a \<inter> set b) = card (set a)"
    then have "set a \<inter> set b = set a"
      by (intro card_subset_eq) auto
    then show "set a \<subseteq> set b" by blast
  next
    assume "set a \<subseteq> set b"
    then have "set a \<inter> set b = set a" by blast
    then show "card (set a \<inter> set b) = card (set a)" by simp
  qed
  show ?thesis
    using 1 2 3 4 by auto
qed

lemma pair_ok_sub:
  "length (set_inter a b) \<in> {0, length a} \<longleftrightarrow> set a \<inter> set b = {} \<or> set a \<subseteq> set b"
  by (auto simp: set_inter_def length_filter_eq_length filter_empty_conv)

text \<open>
  Claim C2. \<open>is_party_list\<close> holds exactly when for every ordered pair of stored voters, equal
  ones included, the intersection of their approval sets has 0 elements or as many as the first
  set; that is, when any two stored approval sets are disjoint or equal. It holds for a profile
  with at most one voter.
\<close>

theorem is_party_list_iff:
  "(is_party_list p \<longleftrightarrow>
      (\<forall>v1\<in>set (voters p). \<forall>v2\<in>set (voters p).
         card (set (approved v1) \<inter> set (approved v2)) \<in> {0, card (set (approved v1))})) \<and>
   (is_party_list p \<longleftrightarrow>
      (\<forall>v1\<in>set (voters p). \<forall>v2\<in>set (voters p).
         set (approved v1) \<inter> set (approved v2) = {} \<or> set (approved v1) = set (approved v2))) \<and>
   (length (voters p) \<le> 1 \<longrightarrow> is_party_list p)"
proof (intro conjI impI)
  show "is_party_list p \<longleftrightarrow>
      (\<forall>v1\<in>set (voters p). \<forall>v2\<in>set (voters p).
         card (set (approved v1) \<inter> set (approved v2)) \<in> {0, card (set (approved v1))})"
    unfolding is_party_list_def list_all_iff pair_ok_card ..
next
  have "is_party_list p \<longleftrightarrow>
      (\<forall>v1\<in>set (voters p). \<forall>v2\<in>set (voters p).
         set (approved v1) \<inter> set (approved v2) = {} \<or> set (approved v1) \<subseteq> set (approved v2))"
    unfolding is_party_list_def list_all_iff pair_ok_sub ..
  also have "\<dots> \<longleftrightarrow>
      (\<forall>v1\<in>set (voters p). \<forall>v2\<in>set (voters p).
         set (approved v1) \<inter> set (approved v2) = {} \<or> set (approved v1) = set (approved v2))"
    by blast
  finally show "is_party_list p \<longleftrightarrow>
      (\<forall>v1\<in>set (voters p). \<forall>v2\<in>set (voters p).
         set (approved v1) \<inter> set (approved v2) = {} \<or> set (approved v1) = set (approved v2))" .
next
  assume "length (voters p) \<le> 1"
  then have "voters p = [] \<or> (\<exists>v. voters p = [v])"
    by (cases "voters p") auto
  then show "is_party_list p"
    by (auto simp: is_party_list_def set_inter_def)
qed


text \<open>
  False for \<open>[{0, 1}, {1, 2}]\<close>, true for \<open>[{0, 1}, {0, 1}, {2}]\<close>, for no voter and for one.
\<close>

theorem is_party_list_iff_witness:
  "\<not> is_party_list (snd (add_voters [Raw [PyInt 0, PyInt 1], Raw [PyInt 1, PyInt 2]]
        \<lparr>candidates = [0, 1, 2], cand_names = [''0'', ''1'', ''2''], voters = [],
           approved_cache = None\<rparr>)) \<and>
   is_party_list (snd (add_voters [Raw [PyInt 0, PyInt 1], Raw [PyInt 0, PyInt 1], Raw [PyInt 2]]
        \<lparr>candidates = [0, 1, 2], cand_names = [''0'', ''1'', ''2''], voters = [],
           approved_cache = None\<rparr>)) \<and>
   is_party_list \<lparr>candidates = [0, 1, 2], cand_names = [''0'', ''1'', ''2''], voters = [],
           approved_cache = None\<rparr> \<and>
   is_party_list (snd (add_voter (Raw [PyInt 0, PyInt 1])
        \<lparr>candidates = [0, 1, 2], cand_names = [''0'', ''1'', ''2''], voters = [],
           approved_cache = None\<rparr>))"
proof -
  let ?p = "\<lparr>candidates = [0, 1, 2], cand_names = [''0'', ''1'', ''2''], voters = [],
           approved_cache = None\<rparr>"
  let ?a = "snd (add_voters [Raw [PyInt 0, PyInt 1], Raw [PyInt 1, PyInt 2]] ?p)"
  let ?b = "snd (add_voters [Raw [PyInt 0, PyInt 1], Raw [PyInt 0, PyInt 1], Raw [PyInt 2]] ?p)"
  let ?c = "snd (add_voter (Raw [PyInt 0, PyInt 1]) ?p)"
  have a: "voters ?a = [\<lparr>approved = [PyInt 0, PyInt 1], weight = 1\<rparr>,
                        \<lparr>approved = [PyInt 1, PyInt 2], weight = 1\<rparr>]"
    by (simp add: eval_defs)
  have b: "voters ?b = [\<lparr>approved = [PyInt 0, PyInt 1], weight = 1\<rparr>,
                        \<lparr>approved = [PyInt 0, PyInt 1], weight = 1\<rparr>,
                        \<lparr>approved = [PyInt 2], weight = 1\<rparr>]"
    by (simp add: eval_defs)
  have c: "voters ?c = [\<lparr>approved = [PyInt 0, PyInt 1], weight = 1\<rparr>]"
    by (simp add: eval_defs)
  have "\<not> is_party_list ?a"
    using is_party_list_iff [of ?a] unfolding a by auto
  moreover have "is_party_list ?b"
    using is_party_list_iff [of ?b] unfolding b by auto
  moreover have "is_party_list ?p"
    using is_party_list_iff [of ?p] by simp
  moreover have "is_party_list ?c"
    using is_party_list_iff [of ?c] unfolding c by simp
  ultimately show ?thesis by blast
qed

subsection \<open>The string methods\<close>

lemma drop_last2_append: "drop_last2 (s @ [a, b]) = s"
  by (simp add: drop_last2_def)

lemma str_int_0: "str_int 0 = ''0''"
  by (simp add: str_int_def str_nat.simps digit_char_def)

text \<open>
  Claim C10. For a profile without voters the last two characters removed by \<open>__str__\<close> and
  \<open>str_compact\<close> are the colon and the newline of the header: \<open>__str__\<close> gives
  \<open>profile with 0 votes and {num_cand} candidates\<close>, and \<open>str_compact\<close> the same followed by a
  newline.
\<close>

theorem empty_profile_strings:
  "voters p = [] \<Longrightarrow>
     str_profile ssc p =
       drop_last2 (''profile with 0 votes and '' @ str_int (num_cand p) @ '' candidates:\<newline>'') \<and>
     str_profile ssc p = ''profile with 0 votes and '' @ str_int (num_cand p) @ '' candidates'' \<and>
     str_compact ssc p =
       drop_last2 (''profile with 0 votes and '' @ str_int (num_cand p) @ '' candidates:\<newline>'')
         @ ''\<newline>'' \<and>
     str_compact ssc p =
       ''profile with 0 votes and '' @ str_int (num_cand p) @ '' candidates\<newline>''"
proof -
  assume e: "voters p = []"
  have h: "''profile with 0 votes and '' @ str_int (num_cand p) @ '' candidates:\<newline>'' =
      (''profile with 0 votes and '' @ str_int (num_cand p) @ '' candidates'') @ [CHR '':'', CHR 0x0A]"
    by simp
  have d: "drop_last2 (''profile with 0 votes and '' @ str_int (num_cand p) @ '' candidates:\<newline>'')
      = ''profile with 0 votes and '' @ str_int (num_cand p) @ '' candidates''"
    unfolding h by (rule drop_last2_append)
  have 1: "str_profile ssc p =
       drop_last2 (''profile with 0 votes and '' @ str_int (num_cand p) @ '' candidates:\<newline>'')"
    by (simp add: str_profile_def has_unit_weights_def e str_int_0)
  have 2: "str_compact ssc p =
       drop_last2 (''profile with 0 votes and '' @ str_int (num_cand p) @ '' candidates:\<newline>'')
         @ ''\<newline>''"
    by (simp add: str_compact_def has_unit_weights_def e str_int_0)
  show ?thesis
    using 1 2 d by simp
qed

text \<open>Over three candidates.\<close>

theorem empty_profile_strings_witness:
  "str_profile (\<lambda>cs ns. [])
     \<lparr>candidates = [0, 1, 2], cand_names = [''0'', ''1'', ''2''], voters = [],
        approved_cache = None\<rparr> = ''profile with 0 votes and 3 candidates'' \<and>
   str_compact (\<lambda>cs ns. [])
     \<lparr>candidates = [0, 1, 2], cand_names = [''0'', ''1'', ''2''], voters = [],
        approved_cache = None\<rparr> = ''profile with 0 votes and 3 candidates\<newline>''"
  using empty_profile_strings [of "\<lparr>candidates = [0, 1, 2], cand_names = [''0'', ''1'', ''2''],
      voters = [], approved_cache = None\<rparr>" "\<lambda>cs ns. []"]
  by (simp add: num_cand_def str_int_def str_nat.simps digit_char_def drop_last2_def)

lemmas str_defs = str_int_def str_nat.simps digit_char_def

lemma drop_last2_Cons: "2 \<le> length xs \<Longrightarrow> drop_last2 (x # xs) = x # drop_last2 xs"
proof -
  assume "2 \<le> length xs"
  then have "length (x # xs) - 2 = Suc (length xs - 2)" by simp
  then show ?thesis unfolding drop_last2_def by simp
qed

lemma drop_last2_app: "2 \<le> length ys \<Longrightarrow> drop_last2 (xs @ ys) = xs @ drop_last2 ys"
  by (simp add: drop_last2_def)

lemma drop_last2_two: "drop_last2 [a, b] = []"
  by (simp add: drop_last2_def)

lemmas drop_last2_simps = drop_last2_Cons drop_last2_app drop_last2_two

text \<open>
  What \<open>str_compact\<close> does for every profile: the keys of its dictionary are the approval
  sets as tuples in the order of their first occurrence among the voters, the value of a key is
  the sum of the weights of the voters with that tuple, and the output is the header, one line
  for each key, the last two characters removed, the total weight unless all weights are 1, and
  a newline.
\<close>

lemma compact_step_keys:
  "map fst (compact_step c v) =
     (if approved v \<in> set (map fst c) then map fst c else map fst c @ [approved v])"
  by (simp add: compact_step_def update_keys split: option.splits)

lemma compact_step_map_of:
  "map_of (compact_step c v) k =
     (if k = approved v
      then Some ((case map_of c k of None \<Rightarrow> 0 | Some w \<Rightarrow> w) + weight v)
      else map_of c k)"
  by (simp add: compact_step_def update_conv' split: option.splits)

lemma compact_keys:
  "map fst (foldl compact_step [] vs) = rev (remdups (rev (map approved vs)))"
proof (induction vs rule: rev_induct)
  case Nil
  then show ?case by simp
next
  case (snoc v vs)
  have "set (rev (remdups (rev (map approved vs)))) = approved ` set vs"
    by simp
  with snoc show ?case
    by (simp add: compact_step_keys)
qed

lemma compact_weights:
  "map_of (foldl compact_step [] vs) k =
     (if k \<in> approved ` set vs
      then Some (sum_list (map weight (filter (\<lambda>v. approved v = k) vs)))
      else None)"
proof (induction vs rule: rev_induct)
  case Nil
  then show ?case by simp
next
  case (snoc v vs)
  have "approved v \<notin> approved ` set vs \<Longrightarrow> filter (\<lambda>u. approved u = approved v) vs = []"
    by (metis (mono_tags, lifting) filter_False image_eqI)
  with snoc show ?case
    by (auto simp: compact_step_map_of)
qed

lemma foldl_append_concat: "foldl (\<lambda>out x. out @ f x) s xs = s @ concat (map f xs)"
  by (induction xs arbitrary: s) simp_all

lemma str_compact_lines:
  "str_compact ssc p =
     drop_last2
       ((if has_unit_weights p then [] else ''weighted '')
          @ ''profile with '' @ str_int (int (length (voters p))) @ '' votes and ''
          @ str_int (num_cand p) @ '' candidates:\<newline>''
          @ concat (map (\<lambda>(k, w). '' '' @ str_int w @ '' x '' @ ssc k (cand_names p) @ '',\<newline>'')
                     (foldl compact_step [] (voters p))))
     @ (if has_unit_weights p then [] else ''\<newline>total weight: '' @ str_int (totalweight p))
     @ ''\<newline>''"
proof -
  have "\<And>s xs. foldl (\<lambda>output (approval_set, w).
            output @ ('' '' @ str_int w @ '' x '' @ ssc approval_set (cand_names p) @ '',\<newline>'')) s xs
        = s @ concat (map (\<lambda>(k, w). '' '' @ str_int w @ '' x '' @ ssc k (cand_names p) @ '',\<newline>'') xs)"
    using foldl_append_concat [where f = "\<lambda>(k, w). '' '' @ str_int w @ '' x '' @ ssc k (cand_names p) @ '',\<newline>''"]
    by (simp add: case_prod_unfold)
  then show ?thesis
    by (simp add: str_compact_def Let_def)
qed

text \<open>
  Claim C8 says that \<open>str_compact\<close> groups the voters by equal approval sets. The key of a
  group is \<open>tuple(voter.approved)\<close>, the set in its iteration order, and two equal sets need
  not iterate in the same order: CPython iterates \<open>set([0, 8])\<close> as 0, 8 and \<open>set([8, 0])\<close> as
  8, 0, as the model does. Over nine candidates the voters \<open>[0, 8]\<close> and \<open>[8, 0]\<close> have the same
  approval set, and \<open>str_compact\<close> prints two groups of weight 1 for them.
\<close>

theorem str_compact_equal_sets_split:
  "add_voters [Raw [PyInt 0, PyInt 8], Raw [PyInt 8, PyInt 0]]
     \<lparr>candidates = [0, 1, 2, 3, 4, 5, 6, 7, 8],
        cand_names = [''0'', ''1'', ''2'', ''3'', ''4'', ''5'', ''6'', ''7'', ''8''],
        voters = [], approved_cache = None\<rparr> =
     (Inr (),
      \<lparr>candidates = [0, 1, 2, 3, 4, 5, 6, 7, 8],
         cand_names = [''0'', ''1'', ''2'', ''3'', ''4'', ''5'', ''6'', ''7'', ''8''],
         voters = [\<lparr>approved = [PyInt 0, PyInt 8], weight = 1\<rparr>,
                   \<lparr>approved = [PyInt 8, PyInt 0], weight = 1\<rparr>],
         approved_cache = None\<rparr>) \<and>
   set [PyInt 0, PyInt 8] = set [PyInt 8, PyInt 0] \<and>
   str_compact ssc
     \<lparr>candidates = [0, 1, 2, 3, 4, 5, 6, 7, 8],
        cand_names = [''0'', ''1'', ''2'', ''3'', ''4'', ''5'', ''6'', ''7'', ''8''],
        voters = [\<lparr>approved = [PyInt 0, PyInt 8], weight = 1\<rparr>,
                  \<lparr>approved = [PyInt 8, PyInt 0], weight = 1\<rparr>],
        approved_cache = None\<rparr> =
     ''profile with 2 votes and 9 candidates:\<newline>''
       @ '' 1 x '' @ ssc [PyInt 0, PyInt 8]
            [''0'', ''1'', ''2'', ''3'', ''4'', ''5'', ''6'', ''7'', ''8''] @ '',\<newline>''
       @ '' 1 x '' @ ssc [PyInt 8, PyInt 0]
            [''0'', ''1'', ''2'', ''3'', ''4'', ''5'', ''6'', ''7'', ''8''] @ ''\<newline>''"
proof (intro conjI)
  show "add_voters [Raw [PyInt 0, PyInt 8], Raw [PyInt 8, PyInt 0]]
     \<lparr>candidates = [0, 1, 2, 3, 4, 5, 6, 7, 8],
        cand_names = [''0'', ''1'', ''2'', ''3'', ''4'', ''5'', ''6'', ''7'', ''8''],
        voters = [], approved_cache = None\<rparr> =
     (Inr (),
      \<lparr>candidates = [0, 1, 2, 3, 4, 5, 6, 7, 8],
         cand_names = [''0'', ''1'', ''2'', ''3'', ''4'', ''5'', ''6'', ''7'', ''8''],
         voters = [\<lparr>approved = [PyInt 0, PyInt 8], weight = 1\<rparr>,
                   \<lparr>approved = [PyInt 8, PyInt 0], weight = 1\<rparr>],
         approved_cache = None\<rparr>)"
    by (simp add: eval_defs)
  show "set [PyInt 0, PyInt 8] = set [PyInt 8, PyInt 0]"
    by auto
  show "str_compact ssc
     \<lparr>candidates = [0, 1, 2, 3, 4, 5, 6, 7, 8],
        cand_names = [''0'', ''1'', ''2'', ''3'', ''4'', ''5'', ''6'', ''7'', ''8''],
        voters = [\<lparr>approved = [PyInt 0, PyInt 8], weight = 1\<rparr>,
                  \<lparr>approved = [PyInt 8, PyInt 0], weight = 1\<rparr>],
        approved_cache = None\<rparr> =
     ''profile with 2 votes and 9 candidates:\<newline>''
       @ '' 1 x '' @ ssc [PyInt 0, PyInt 8]
            [''0'', ''1'', ''2'', ''3'', ''4'', ''5'', ''6'', ''7'', ''8''] @ '',\<newline>''
       @ '' 1 x '' @ ssc [PyInt 8, PyInt 0]
            [''0'', ''1'', ''2'', ''3'', ''4'', ''5'', ''6'', ''7'', ''8''] @ ''\<newline>''"
    by (simp add: str_compact_def compact_step_def has_unit_weights_def num_cand_def
        str_defs drop_last2_simps)
qed


text \<open>
  The example of the specification: the voters \<open>[{0}, {0}, {1}]\<close> of weight 1 give a group of
  weight 2 and a group of weight 1, in this order, and no line with the total weight.
\<close>

lemma str_compact_example:
  "str_compact ssc
     \<lparr>candidates = [0, 1], cand_names = [''0'', ''1''],
        voters = [\<lparr>approved = [PyInt 0], weight = 1\<rparr>, \<lparr>approved = [PyInt 0], weight = 1\<rparr>,
                  \<lparr>approved = [PyInt 1], weight = 1\<rparr>],
        approved_cache = None\<rparr> =
     ''profile with 3 votes and 2 candidates:\<newline>''
       @ '' 2 x '' @ ssc [PyInt 0] [''0'', ''1''] @ '',\<newline>''
       @ '' 1 x '' @ ssc [PyInt 1] [''0'', ''1''] @ ''\<newline>''"
  by (simp add: str_compact_def compact_step_def has_unit_weights_def num_cand_def
        str_defs drop_last2_simps)

subsection \<open>Ownership of approval sets\<close>

lemma Voter_init_at_store:
  "Voter_init_at st a w = (r, st1) \<Longrightarrow> st1 = st @ [py_set (st ! a)]"
  by (auto simp: Voter_init_at_def new_object_def Let_def split: sum.splits)

lemma Voter_init_at_Inr:
  "Voter_init_at st a w = (Inr v, st1) \<Longrightarrow> v = \<lparr>approved_at = length st, weight_of = w\<rparr>"
  by (auto simp: Voter_init_at_def new_object_def Let_def split: sum.splits)

lemma Voter_init_at_value:
  "a < length st \<Longrightarrow>
     fst (Voter_init_at st a w) =
       map_sum id (\<lambda>v. \<lparr>approved_at = length st, weight_of = w\<rparr>) (Voter_init (st ! a) w)"
  by (auto simp: Voter_init_at_def Voter_init_def new_object_def view_def nth_append Let_def
      split: sum.splits)

lemma unique_voter_at_store:
  "unique_voter_at arg st p = (r, st1, p1) \<Longrightarrow>
     st1 = st @ [py_set (st ! addr_of arg)] \<and> voters_of p1 = voters_of p \<and>
     (\<forall>v. r = Inr v \<longrightarrow> approved_at v = length st)"
  by (cases arg)
     (auto simp: unique_voter_at_def Let_def split: sum.splits prod.splits
       dest: Voter_init_at_store Voter_init_at_Inr)

lemma add_voter_at_Inr:
  "add_voter_at arg st p = (Inr u, st', p') \<Longrightarrow>
     st' = st @ [py_set (st ! addr_of arg)] \<and>
     (\<exists>v. approved_at v = length st \<and> voters_of p' = voters_of p @ [v])"
  by (auto simp: add_voter_at_def split: sum.splits prod.splits dest!: unique_voter_at_store)

lemma add_voter_at_Inl:
  "add_voter_at arg st p = (Inl e, st', p') \<Longrightarrow>
     st' = st @ [py_set (st ! addr_of arg)] \<and> voters_of p' = voters_of p"
  by (auto simp: add_voter_at_def split: sum.splits prod.splits dest!: unique_voter_at_store)

lemma setitem_at_Inr:
  "setitem_at i arg st p = (Inr u, st', p') \<Longrightarrow>
     st' = st @ [py_set (st ! addr_of arg)] \<and>
     - int (length (voters_of p)) \<le> i \<and> i < int (length (voters_of p)) \<and>
     (\<exists>v. approved_at v = length st \<and>
        voters_of p' =
          (voters_of p)[nat (if i < 0 then int (length (voters_of p)) + i else i) := v])"
  by (auto simp: setitem_at_def Let_def split: sum.splits prod.splits if_splits
      dest!: unique_voter_at_store)

lemma setitem_at_Inl:
  "setitem_at i arg st p = (Inl e, st', p') \<Longrightarrow>
     st' = st @ [py_set (st ! addr_of arg)] \<and> voters_of p' = voters_of p"
  by (auto simp: setitem_at_def Let_def split: sum.splits prod.splits if_splits
      dest!: unique_voter_at_store)

lemma unshared_grow: "unshared st p \<Longrightarrow> voters_of p' = voters_of p \<Longrightarrow> unshared (st @ [x]) p'"
  by (auto simp: unshared_def)

lemma unshared_append:
  "unshared st p \<Longrightarrow> approved_at v = length st \<Longrightarrow> voters_of p' = voters_of p @ [v]
     \<Longrightarrow> unshared (st @ [x]) p'"
  by (auto simp: unshared_def)

lemma unshared_replace:
  assumes u: "unshared st p" and v: "approved_at v = length st"
    and p': "voters_of p' = (voters_of p)[k := v]"
  shows "unshared (st @ [x]) p'"
proof -
  have s: "set ((voters_of p)[k := v]) \<subseteq> insert v (set (voters_of p))"
    by (rule set_update_subset_insert)
  from u have "length st \<notin> set (map approved_at (voters_of p))"
    by (auto simp: unshared_def)
  then have "approved_at v \<notin> set (map approved_at (voters_of p)) - {map approved_at (voters_of p) ! k}"
    using v by simp
  with u have "distinct ((map approved_at (voters_of p))[k := approved_at v])"
    by (simp add: unshared_def distinct_list_update)
  then have "distinct (map approved_at ((voters_of p)[k := v]))"
    by (simp add: map_update)
  moreover from u v s have "\<forall>w\<in>set ((voters_of p)[k := v]). approved_at w < length (st @ [x])"
    by (auto simp: unshared_def less_Suc_eq)
  ultimately show ?thesis
    by (simp add: unshared_def p')
qed

lemma unshared_add_voter_at:
  "unshared st p \<Longrightarrow>
     unshared (fst (snd (add_voter_at arg st p))) (snd (snd (add_voter_at arg st p)))"
proof -
  assume u: "unshared st p"
  obtain r st' p' where a: "add_voter_at arg st p = (r, st', p')"
    by (cases "add_voter_at arg st p") auto
  show ?thesis
  proof (cases r)
    case (Inl e)
    with a u show ?thesis by (auto dest!: add_voter_at_Inl intro: unshared_grow)
  next
    case (Inr x)
    with a u show ?thesis by (auto dest!: add_voter_at_Inr intro: unshared_append)
  qed
qed

lemma unshared_setitem_at:
  "unshared st p \<Longrightarrow>
     unshared (fst (snd (setitem_at i arg st p))) (snd (snd (setitem_at i arg st p)))"
proof -
  assume u: "unshared st p"
  obtain r st' p' where a: "setitem_at i arg st p = (r, st', p')"
    by (cases "setitem_at i arg st p") auto
  show ?thesis
  proof (cases r)
    case (Inl e)
    with a u show ?thesis by (auto dest!: setitem_at_Inl intro: unshared_grow)
  next
    case (Inr x)
    with a u show ?thesis by (auto dest!: setitem_at_Inr intro: unshared_replace)
  qed
qed

lemma view_fresh:
  "approved_at v = length st \<Longrightarrow> a < length st \<Longrightarrow>
     approved (view (st @ [x]) v) = x \<and> approved_at v \<noteq> a \<and>
     (\<forall>xs. view (mutate (st @ [x]) a xs) v = view (st @ [x]) v)"
  by (simp add: view_def mutate_def)


text \<open>
  Claim C9. Let no two stored voters share an approval set, and let the caller hand over an
  existing collection, as a raw iterable or as the approval set of a \<open>Voter\<close>. When \<open>add_voter\<close>
  returns, the voter it appended refers to a set that is not the caller's collection and holds
  the elements the collection had at the call; whatever the caller writes to the collection
  afterwards, the stored voter is the same. The same holds for the voter that \<open>__setitem__\<close>
  puts at index \<open>i\<close>. After either call, returning or raising, still no two stored voters share
  an approval set.
\<close>

theorem insertion_copies:
  "unshared st p \<Longrightarrow> addr_of arg < length st \<Longrightarrow>
     (add_voter_at arg st p = (Inr (), st', p') \<longrightarrow>
        (\<exists>v. voters_of p' = voters_of p @ [v] \<and>
             approved (view st' v) = py_set (st ! addr_of arg) \<and>
             approved_at v \<noteq> addr_of arg \<and>
             (\<forall>xs. view (mutate st' (addr_of arg) xs) v = view st' v))) \<and>
     (setitem_at i arg st p = (Inr (), st', p') \<longrightarrow>
        - int (length (voters_of p)) \<le> i \<and> i < int (length (voters_of p)) \<and>
        (\<exists>v. voters_of p' =
               (voters_of p)[nat (if i < 0 then int (length (voters_of p)) + i else i) := v] \<and>
             approved (view st' v) = py_set (st ! addr_of arg) \<and>
             approved_at v \<noteq> addr_of arg \<and>
             (\<forall>xs. view (mutate st' (addr_of arg) xs) v = view st' v))) \<and>
     unshared (fst (snd (add_voter_at arg st p))) (snd (snd (add_voter_at arg st p))) \<and>
     unshared (fst (snd (setitem_at i arg st p))) (snd (snd (setitem_at i arg st p)))"
proof (intro conjI impI)
  assume u: "unshared st p" and a: "addr_of arg < length st"
  {
    assume "add_voter_at arg st p = (Inr (), st', p')"
    then obtain v where st': "st' = st @ [py_set (st ! addr_of arg)]"
      and v: "approved_at v = length st" and p': "voters_of p' = voters_of p @ [v]"
      by (blast dest: add_voter_at_Inr)
    from view_fresh [OF v a, of "py_set (st ! addr_of arg)"] p'
    show "\<exists>v. voters_of p' = voters_of p @ [v] \<and>
             approved (view st' v) = py_set (st ! addr_of arg) \<and>
             approved_at v \<noteq> addr_of arg \<and>
             (\<forall>xs. view (mutate st' (addr_of arg) xs) v = view st' v)"
      unfolding st' by blast
  }
  {
    assume s: "setitem_at i arg st p = (Inr (), st', p')"
    then show "- int (length (voters_of p)) \<le> i" and "i < int (length (voters_of p))"
      by (auto dest: setitem_at_Inr)
    from s obtain v where st': "st' = st @ [py_set (st ! addr_of arg)]"
      and v: "approved_at v = length st"
      and p': "voters_of p' =
          (voters_of p)[nat (if i < 0 then int (length (voters_of p)) + i else i) := v]"
      by (blast dest: setitem_at_Inr)
    from view_fresh [OF v a, of "py_set (st ! addr_of arg)"] p'
    show "\<exists>v. voters_of p' =
               (voters_of p)[nat (if i < 0 then int (length (voters_of p)) + i else i) := v] \<and>
             approved (view st' v) = py_set (st ! addr_of arg) \<and>
             approved_at v \<noteq> addr_of arg \<and>
             (\<forall>xs. view (mutate st' (addr_of arg) xs) v = view st' v)"
      unfolding st' by blast
  }
  from u show "unshared (fst (snd (add_voter_at arg st p))) (snd (snd (add_voter_at arg st p)))"
    by (rule unshared_add_voter_at)
  from u show "unshared (fst (snd (setitem_at i arg st p))) (snd (snd (setitem_at i arg st p)))"
    by (rule unshared_setitem_at)
qed


text \<open>
  The caller's list \<open>[0, 1]\<close> is inserted, then changed to \<open>[0, 1, 2]\<close>: the stored voter still
  approves \<open>{0, 1}\<close>. The list inserted twice gives two voters with sets at different addresses.
\<close>

theorem insertion_copies_witness:
  "add_voter_at (RawAt 0) [[PyInt 0, PyInt 1]]
     \<lparr>candidates_of = [0, 1, 2], cand_names_of = [''0'', ''1'', ''2''], voters_of = [],
        approved_cache_of = None\<rparr> =
     (Inr (), [[PyInt 0, PyInt 1], [PyInt 0, PyInt 1]],
      \<lparr>candidates_of = [0, 1, 2], cand_names_of = [''0'', ''1'', ''2''],
         voters_of = [\<lparr>approved_at = 1, weight_of = 1\<rparr>], approved_cache_of = None\<rparr>) \<and>
   view (mutate [[PyInt 0, PyInt 1], [PyInt 0, PyInt 1]] 0 [PyInt 0, PyInt 1, PyInt 2])
     \<lparr>approved_at = 1, weight_of = 1\<rparr> = \<lparr>approved = [PyInt 0, PyInt 1], weight = 1\<rparr> \<and>
   map approved_at (voters_of (snd (snd (add_voter_at (RawAt 0)
     [[PyInt 0, PyInt 1], [PyInt 0, PyInt 1]]
     \<lparr>candidates_of = [0, 1, 2], cand_names_of = [''0'', ''1'', ''2''],
        voters_of = [\<lparr>approved_at = 1, weight_of = 1\<rparr>], approved_cache_of = None\<rparr>)))) = [1, 2]"
proof -
  let ?st = "[[PyInt 0, PyInt 1]]"
  let ?p = "\<lparr>candidates_of = [0, 1, 2], cand_names_of = [''0'', ''1'', ''2''], voters_of = [],
        approved_cache_of = None\<rparr>"
  let ?st1 = "[[PyInt 0, PyInt 1], [PyInt 0, PyInt 1]]"
  let ?p1 = "\<lparr>candidates_of = [0, 1, 2], cand_names_of = [''0'', ''1'', ''2''],
         voters_of = [\<lparr>approved_at = 1, weight_of = 1\<rparr>], approved_cache_of = None\<rparr>"
  have u: "unshared ?st ?p" by (simp add: unshared_def)
  have a: "addr_of (RawAt 0) < length ?st" by simp
  have e: "add_voter_at (RawAt 0) ?st ?p = (Inr (), ?st1, ?p1)"
    by (simp add: add_voter_at_def unique_voter_at_def Voter_init_at_def new_object_def view_def
        check_valid_def py_set_def set_update_def)
  from insertion_copies [OF u a, of ?st1 ?p1 0] e
  have "\<exists>v. voters_of ?p1 = voters_of ?p @ [v] \<and>
      (\<forall>xs. view (mutate ?st1 (addr_of (RawAt 0)) xs) v = view ?st1 v)"
    by blast
  then have "view (mutate ?st1 0 [PyInt 0, PyInt 1, PyInt 2]) \<lparr>approved_at = 1, weight_of = 1\<rparr>
      = view ?st1 \<lparr>approved_at = 1, weight_of = 1\<rparr>"
    by simp
  then have m: "view (mutate ?st1 0 [PyInt 0, PyInt 1, PyInt 2]) \<lparr>approved_at = 1, weight_of = 1\<rparr>
      = \<lparr>approved = [PyInt 0, PyInt 1], weight = 1\<rparr>"
    by (simp add: view_def)
  have "map approved_at (voters_of (snd (snd (add_voter_at (RawAt 0) ?st1 ?p1)))) = [1, 2]"
    by (simp add: add_voter_at_def unique_voter_at_def Voter_init_at_def new_object_def view_def
        check_valid_def py_set_def set_update_def)
  with e m show ?thesis by blast
qed

text \<open>
  The two embeddings agree: a call on objects does to the profile of values what the call on
  values does.
\<close>

lemma view_old: "approved_at v < length st \<Longrightarrow> view (st @ [x]) v = view st v"
  by (simp add: view_def nth_append)

lemma profile_of_grow:
  "unshared st p \<Longrightarrow> voters_of p' = voters_of p \<Longrightarrow>
     profile_of (st @ [x]) p' = (profile_of st p')"
  by (simp add: profile_of_def unshared_def view_old)

lemma arg_of_Voter_init:
  "(case arg_of st arg of AVoter v \<Rightarrow> Voter_init (approved v) (weight v) | Raw xs \<Rightarrow> Voter_init xs 1)
     = Voter_init (st ! addr_of arg) (case arg of AVoterAt v \<Rightarrow> weight_of v | RawAt a \<Rightarrow> 1)"
  by (cases arg) (simp_all add: view_def)

lemma unique_voter_at_refines:
  assumes u: "unshared st p" and a: "addr_of arg < length st"
    and r: "unique_voter_at arg st p = (r, st1, p1)"
  shows "unique_voter (arg_of st arg) (profile_of st p) = (map_sum id (view st1) r, profile_of st1 p1)"
proof -
  let ?w = "case arg of AVoterAt v \<Rightarrow> weight_of v | RawAt a \<Rightarrow> 1"
  let ?x = "py_set (st ! addr_of arg)"
  let ?v = "\<lparr>approved_at = length st, weight_of = ?w\<rparr>"
  have st1: "st1 = st @ [?x]" and vs: "voters_of p1 = voters_of p"
    using r by (auto dest: unique_voter_at_store)
  have pg: "\<And>q. voters_of q = voters_of p \<Longrightarrow> profile_of st1 q = profile_of st q"
    unfolding st1 using u by (rule profile_of_grow)
  have V: "(case arg of AVoterAt v \<Rightarrow> Voter_init_at st (approved_at v) (weight_of v)
            | RawAt a \<Rightarrow> Voter_init_at st a 1) = Voter_init_at st (addr_of arg) ?w"
    by (cases arg) simp_all
  have vw: "view st1 ?v = \<lparr>approved = ?x, weight = ?w\<rparr>"
    by (simp add: view_def st1)
  have raw: "st1 ! addr_of arg = st ! addr_of arg"
    using a by (simp add: st1 nth_append)
  show ?thesis
  proof (cases "check_valid \<lparr>approved = ?x, weight = ?w\<rparr> Unbounded (Some (st ! addr_of arg))")
    case (Inl e)
    then have "Voter_init_at st (addr_of arg) ?w = (Inl e, st1)"
      using vw raw by (simp add: Voter_init_at_def new_object_def st1)
    with r V have "r = Inl e" "p1 = p"
      by (simp_all add: unique_voter_at_def)
    moreover from Inl have "Voter_init (st ! addr_of arg) ?w = Inl e"
      by (simp add: Voter_init_def)
    ultimately show ?thesis
      using pg [of p] by (simp add: unique_voter_def arg_of_Voter_init)
  next
    case (Inr x)
    then have I: "Voter_init_at st (addr_of arg) ?w = (Inr ?v, st1)"
      using vw raw by (simp add: Voter_init_at_def new_object_def st1)
    from Inr have J: "Voter_init (st ! addr_of arg) ?w = Inr \<lparr>approved = ?x, weight = ?w\<rparr>"
      by (simp add: Voter_init_def)
    have n: "num_cand (profile_of st p\<lparr>approved_cache := None\<rparr>) = int (length (candidates_of p))"
      by (simp add: num_cand_def profile_of_def)
    have c: "profile_of st p\<lparr>approved_cache := None\<rparr> = profile_of st1 (p\<lparr>approved_cache_of := None\<rparr>)"
      using pg [of "p\<lparr>approved_cache_of := None\<rparr>"] by (simp add: profile_of_def)
    show ?thesis
    proof (cases "check_valid \<lparr>approved = ?x, weight = ?w\<rparr> (Bound (int (length (candidates_of p)))) None")
      case (Inl e)
      with r V I vw have "r = Inl e" "p1 = p\<lparr>approved_cache_of := None\<rparr>"
        by (simp_all add: unique_voter_at_def)
      with Inl J n c show ?thesis
        by (simp add: unique_voter_def arg_of_Voter_init)
    next
      case (Inr y)
      with r V I vw have "r = Inr ?v" "p1 = p\<lparr>approved_cache_of := None\<rparr>"
        by (simp_all add: unique_voter_at_def)
      with Inr J n c vw show ?thesis
        by (simp add: unique_voter_def arg_of_Voter_init)
    qed
  qed
qed


lemma add_voter_at_refines:
  assumes u: "unshared st p" and a: "addr_of arg < length st"
    and r: "add_voter_at arg st p = (r, st', p')"
  shows "add_voter (arg_of st arg) (profile_of st p) = (r, profile_of st' p')"
proof -
  obtain r1 st1 p1 where q: "unique_voter_at arg st p = (r1, st1, p1)"
    by (cases "unique_voter_at arg st p") auto
  note v = unique_voter_at_refines [OF u a q]
  show ?thesis
  proof (cases r1)
    case (Inl e)
    with q r v show ?thesis by (simp add: add_voter_at_def add_voter_def)
  next
    case (Inr w)
    with q r v show ?thesis
      by (auto simp: add_voter_at_def add_voter_def profile_of_def)
  qed
qed

lemma setitem_at_refines:
  assumes u: "unshared st p" and a: "addr_of arg < length st"
    and r: "setitem_at i arg st p = (r, st', p')"
  shows "setitem i (arg_of st arg) (profile_of st p) = (r, profile_of st' p')"
proof -
  obtain r1 st1 p1 where q: "unique_voter_at arg st p = (r1, st1, p1)"
    by (cases "unique_voter_at arg st p") auto
  note v = unique_voter_at_refines [OF u a q]
  show ?thesis
  proof (cases r1)
    case (Inl e)
    with q r v show ?thesis by (simp add: setitem_at_def setitem_def)
  next
    case (Inr w)
    with q r v show ?thesis
      by (auto simp: setitem_at_def setitem_def profile_of_def Let_def map_update split: if_splits)
  qed
qed

end
